theory Spec2Isabelle
  imports Complex_Main
begin

section \<open>Data model\<close>

text \<open>
  The service keeps two tables (\<open>schedules\<close>, \<open>job_executions\<close>), a registry of armed
  node-cron tasks (\<open>runningJobs\<close>) and a registry of progress subscribers
  (\<open>progressSubscribers\<close>).  Timestamps are the ISO strings the code stores; identifiers
  are strings.  What the code draws from the clock or from \<open>crypto.randomUUID\<close> is an
  explicit argument of the operation that draws it; an operation that reads the clock
  several times gets one instant.

  Each operation (a request handler, one fire of a timer, the recovery step) is a
  function from the state of the process to its next state, run from start to end:
  how the awaits of two operations interleave is not part of the model.  A call of
  \<open>db.run\<close> may throw; the queries (\<open>.get\<close>, \<open>.all\<close>) do not.  An operation that can
  throw returns \<open>Raise\<close> together with the state it leaves behind.
\<close>

type_synonym instant = string

text \<open>
  A row of \<open>schedules\<close>, which is also the \<open>Schedule\<close> object the code hands around.
  \<open>id_col\<close> is the column \<open>id\<close>.  \<open>isActive\<close> is stored as 0/1 and read through
  \<open>Boolean(...)\<close>, so it is a boolean here.  \<open>nextRun\<close> is no column: only
  \<open>scheduleFromRow\<close> fills it.  The numbers of the retry policy come from a JSON body,
  so they are rationals; \<open>progress\<close> is only ever given an integer.  The column
  \<open>retryAttempts\<close>, which no statement of the code writes, is left out.
\<close>

record Schedule =
  id_col :: string
  name :: string
  cronExpression :: string
  task :: string
  isActive :: bool
  progress :: int
  status :: string
  lastStatus :: "string option"
  currentJobId :: "string option"
  message :: "string option"
  createdAt :: instant
  updatedAt :: instant
  lastRun :: "instant option"
  nextRun :: "instant option"
  maxRetries :: rat
  retryDelay :: rat
  pe :: "string option"
  ou :: "string option"
  scorecard :: "int option"
  includeChildren :: bool

text \<open>A row of \<open>job_executions\<close>.\<close>

record Execution =
  e_id :: string
  e_scheduleId :: string
  e_startTime :: instant
  e_endTime :: "instant option"
  e_status :: string

record database =
  schedules :: "Schedule list"
  job_executions :: "Execution list"

text \<open>The \<open>ProgressUpdate\<close> object that \<open>broadcastProgress\<close> serialises to subscribers.\<close>

datatype ProgressUpdate =
  ProgressUpdate (scheduleId: string) (u_progress: int) (u_status: string)
    (u_message: "string option") (timestamp: instant)

datatype error = DbError | HttpError | TypeError | CronError

datatype 'a result = Ok 'a | Raise error

text \<open>
  The requests the job body sends out: the organisation-unit lookup (with or without
  descendants), the indicator-group lookup, an analytics query (its \<open>dx\<close> items, period
  and organisation unit) and an upload to ALMA (scorecard and unit name).
\<close>

datatype request =
  GetOrgUnits "string option" bool
  | GetIndicators
  | GetAnalytics "string list" "string option" string
  | SendToAlma "int option" string

datatype log_entry =
  Executing string string
  | ErrorExecuting string error
  | Logged error
  | Info string
  | Restoring string string

text \<open>A node-cron task: the schedule object its callback closes over, and whether it runs.\<close>

record ScheduledTask =
  snapshot :: Schedule
  started :: bool

text \<open>
  The statements the code passes to \<open>db.run\<close>, one constructor per SQL text, with the
  bound parameters in the order of the \<open>?\<close> marks.
\<close>

datatype sql =
  InsertExecution string string instant string
  | MarkRunning string string
  | SetMessage string string
  | SetProgress int string string
  | SealExecution instant string string
  | MarkCompleted instant string
  | MarkInterrupted int instant instant string
  | InsertSchedule string string string string instant instant rat rat
      "string option" "string option" "int option" bool
  | Activate instant string

text \<open>
  The process: the database, the outcomes of the \<open>db.run\<close> calls still to come (\<open>True\<close>:
  the call throws; past the end of the list every call succeeds), the timer registry,
  every node-cron task created so far (a task's handle is its position), the subscriber
  registry, and the console.  Three fields record what the process did, for the
  properties to speak about: \<open>sql_log\<close>, the statements that ran, in order;
  \<open>delivered\<close>, what each subscriber callback was called with; \<open>calls\<close>, the requests
  sent to the remote services.
\<close>

record world =
  db :: database
  faults :: "bool list"
  sql_log :: "sql list"
  runningJobs :: "string \<Rightarrow> nat option"
  tasks :: "ScheduledTask list"
  progressSubscribers :: "string \<Rightarrow> nat list option"
  delivered :: "(nat \<times> ProgressUpdate) list"
  console :: "log_entry list"
  calls :: "request list"

section \<open>The store\<close>

definition update_where :: "string \<Rightarrow> (Schedule \<Rightarrow> Schedule) \<Rightarrow> Schedule list \<Rightarrow> Schedule list" where
  "update_where i f rows = map (\<lambda>r. if id_col r = i then f r else r) rows"

definition update_execution :: "string \<Rightarrow> (Execution \<Rightarrow> Execution) \<Rightarrow> Execution list \<Rightarrow> Execution list" where
  "update_execution i f rows = map (\<lambda>r. if e_id r = i then f r else r) rows"

text \<open>What each statement does to the tables.\<close>

fun run_sql :: "sql \<Rightarrow> database \<Rightarrow> database" where
  "run_sql (InsertExecution jobId i startTime st) d =
     d\<lparr>job_executions := job_executions d @
        [\<lparr>e_id = jobId, e_scheduleId = i, e_startTime = startTime, e_endTime = None,
          e_status = st\<rparr>]\<rparr>"
| "run_sql (MarkRunning jobId i) d =
     d\<lparr>schedules := update_where i
        (\<lambda>r. r\<lparr>currentJobId := Some jobId, status := ''running'', progress := 0,
               message := Some ''Task started''\<rparr>) (schedules d)\<rparr>"
| "run_sql (SetMessage m i) d =
     d\<lparr>schedules := update_where i (\<lambda>r. r\<lparr>message := Some m\<rparr>) (schedules d)\<rparr>"
| "run_sql (SetProgress p m i) d =
     d\<lparr>schedules := update_where i (\<lambda>r. r\<lparr>progress := p, message := Some m\<rparr>) (schedules d)\<rparr>"
| "run_sql (SealExecution endTime st jobId) d =
     d\<lparr>job_executions := update_execution jobId
        (\<lambda>e. e\<lparr>e_endTime := Some endTime, e_status := st\<rparr>) (job_executions d)\<rparr>"
| "run_sql (MarkCompleted endTime i) d =
     d\<lparr>schedules := update_where i
        (\<lambda>r. r\<lparr>currentJobId := None, lastStatus := Some ''completed'',
               status := ''completed'', progress := 100, lastRun := Some endTime,
               message := Some ''Task completed successfully''\<rparr>) (schedules d)\<rparr>"
| "run_sql (MarkInterrupted p upd lr i) d =
     d\<lparr>schedules := update_where i
        (\<lambda>r. r\<lparr>status := ''failed'', progress := p, updatedAt := upd, lastRun := Some lr\<rparr>)
        (schedules d)\<rparr>"
| "run_sql (InsertSchedule i n c t created upd mr rd p org sc ic) d =
     d\<lparr>schedules := schedules d @
        [\<lparr>id_col = i, name = n, cronExpression = c, task = t, isActive = False,
          progress = 0, status = ''idle'', lastStatus = None, currentJobId = None,
          message = None, createdAt = created, updatedAt = upd, lastRun = None,
          nextRun = None, maxRetries = mr, retryDelay = rd, pe = p, ou = org,
          scorecard = sc, includeChildren = ic\<rparr>]\<rparr>"
| "run_sql (Activate upd i) d =
     d\<lparr>schedules := update_where i
        (\<lambda>r. r\<lparr>isActive := True, updatedAt := upd, status := ''idle'', progress := 0\<rparr>)
        (schedules d)\<rparr>"

text \<open>
  \<open>db.run\<close>: the next outcome in \<open>faults\<close> decides whether the call throws; a call that
  throws changes no table.
\<close>

definition db_run :: "sql \<Rightarrow> world \<Rightarrow> unit result \<times> world" where
  "db_run s w =
     (case faults w of
        [] \<Rightarrow> (Ok (), w\<lparr>db := run_sql s (db w), sql_log := sql_log w @ [s]\<rparr>)
      | f # fs \<Rightarrow>
          if f then (Raise DbError, w\<lparr>faults := fs\<rparr>)
          else (Ok (), w\<lparr>db := run_sql s (db w), faults := fs, sql_log := sql_log w @ [s]\<rparr>))"

text \<open>The queries: \<open>.all\<close> returns every matching row, \<open>.get\<close> the first one.\<close>

definition select_by_status :: "string \<Rightarrow> database \<Rightarrow> Schedule list" where
  "select_by_status st d = filter (\<lambda>r. status r = st) (schedules d)"

definition select_active :: "database \<Rightarrow> Schedule list" where
  "select_active d = filter isActive (schedules d)"

definition get_by_id :: "string \<Rightarrow> database \<Rightarrow> Schedule option" where
  "get_by_id i d = find (\<lambda>r. id_col r = i) (schedules d)"

definition log_line :: "log_entry \<Rightarrow> world \<Rightarrow> world" where
  "log_line l w = w\<lparr>console := console w @ [l]\<rparr>"

section \<open>schedule.ts\<close>

text \<open>
  \<open>broadcastProgress\<close>: every subscriber registered under the update's schedule id is
  called with the update, in the set's order; no registered set, no call.
\<close>

definition broadcastProgress :: "ProgressUpdate \<Rightarrow> world \<Rightarrow> world" where
  "broadcastProgress update w =
     (case progressSubscribers w (scheduleId update) of
        None \<Rightarrow> w
      | Some subscribers \<Rightarrow>
          w\<lparr>delivered := delivered w @ map (\<lambda>subscriber. (subscriber, update)) subscribers\<rparr>)"

text \<open>
  \<open>cleanupRunningJobs\<close>: the rows with status \<open>running\<close> are read once; for each, one
  UPDATE and one broadcast.  \<open>db.run\<close> is not guarded here, so a throw ends the loop.
\<close>

fun cleanup_loop :: "instant \<Rightarrow> Schedule list \<Rightarrow> world \<Rightarrow> unit result \<times> world" where
  "cleanup_loop now [] w = (Ok (), w)"
| "cleanup_loop now (job # jobs) w =
     (case db_run (MarkInterrupted 0 now now (id_col job)) w of
        (Raise e, w') \<Rightarrow> (Raise e, w')
      | (Ok _, w') \<Rightarrow>
          cleanup_loop now jobs
            (broadcastProgress
               (ProgressUpdate (id_col job) 0 ''failed''
                  (Some ''Task interrupted due to server restart'') now) w'))"

definition cleanupRunningJobs :: "instant \<Rightarrow> world \<Rightarrow> unit result \<times> world" where
  "cleanupRunningJobs now w = cleanup_loop now (select_by_status ''running'' (db w)) w"

text \<open>
  The two libraries the code calls and does not contain: node-cron's \<open>validate\<close>, and
  cron-parser's \<open>parseExpression(e).next().toDate()\<close> as it answers at the moment of
  the call (a throw of either step is \<open>Raise\<close>).
\<close>

record env =
  cron_validate :: "string \<Rightarrow> bool"
  cron_next :: "string \<Rightarrow> instant result"

definition isValidCronExpression :: "env \<Rightarrow> string \<Rightarrow> bool" where
  "isValidCronExpression env cronExp = cron_validate env cronExp"

definition getNextRunTime :: "env \<Rightarrow> string \<Rightarrow> instant option" where
  "getNextRunTime env cronExp =
     (case cron_next env cronExp of Ok t \<Rightarrow> Some t | Raise _ \<Rightarrow> None)"

text \<open>
  \<open>scheduleFromRow\<close> copies the row, fills \<open>nextRun\<close> for an active row and leaves
  \<open>message\<close> out of the object it builds.
\<close>

definition scheduleFromRow :: "env \<Rightarrow> Schedule \<Rightarrow> Schedule" where
  "scheduleFromRow env row =
     row\<lparr>nextRun := (if isActive row then getNextRunTime env (cronExpression row) else None),
         message := None\<rparr>"

text \<open>
  \<open>startScheduleJob\<close>: \<open>cron.schedule\<close> builds the task (node-cron throws there on an
  expression it does not accept), \<open>job.start()\<close> starts it, and \<open>runningJobs.set\<close> files
  it under the schedule's id.  There is no look at the registry before the \<open>set\<close>.
  The job body \<open>func\<close> that the task's callback closes over is the argument of
  \<open>timer_callback\<close> below; the task keeps the schedule object.
\<close>

definition startScheduleJob :: "env \<Rightarrow> Schedule \<Rightarrow> world \<Rightarrow> nat result \<times> world" where
  "startScheduleJob env schedule w =
     (if \<not> cron_validate env (cronExpression schedule) then (Raise CronError, w)
      else
        (let job = length (tasks w) in
         (Ok job,
          w\<lparr>tasks := tasks w @ [\<lparr>snapshot = schedule, started = True\<rparr>],
            runningJobs := (runningJobs w)(id_col schedule \<mapsto> job)\<rparr>)))"

text \<open>
  The callback \<open>startScheduleJob\<close> gives to \<open>cron.schedule\<close>: it logs, awaits the job
  body on the schedule object it closed over, and logs what the body throws.
\<close>

definition timer_callback ::
  "(Schedule \<Rightarrow> world \<Rightarrow> unit result \<times> world) \<Rightarrow> Schedule \<Rightarrow> world \<Rightarrow> world" where
  "timer_callback func schedule w =
     (case func schedule (log_line (Executing (id_col schedule) (task schedule)) w) of
        (Raise e, w') \<Rightarrow> log_line (ErrorExecuting (id_col schedule) e) w'
      | (Ok _, w') \<Rightarrow> w')"

text \<open>One fire of the task with handle \<open>h\<close>: a started task runs its callback.\<close>

definition fire ::
  "(Schedule \<Rightarrow> world \<Rightarrow> unit result \<times> world) \<Rightarrow> nat \<Rightarrow> world \<Rightarrow> world" where
  "fire func h w =
     (if h < length (tasks w) \<and> started (tasks w ! h)
      then timer_callback func (snapshot (tasks w ! h)) w else w)"

fun restore_loop :: "env \<Rightarrow> Schedule list \<Rightarrow> world \<Rightarrow> unit result \<times> world" where
  "restore_loop env [] w = (Ok (), w)"
| "restore_loop env (scheduleRow # rows) w =
     (let schedule = scheduleFromRow env scheduleRow;
          w1 = log_line (Restoring (name schedule) (id_col schedule)) w
      in case startScheduleJob env schedule w1 of
           (Raise e, w2) \<Rightarrow> (Raise e, w2)
         | (Ok _, w2) \<Rightarrow> restore_loop env rows w2)"

definition restoreActiveSchedules :: "env \<Rightarrow> world \<Rightarrow> unit result \<times> world" where
  "restoreActiveSchedules env w =
     restore_loop env (select_active (db w))
       (log_line (Info ''Restoring active schedules...'') w)"

section \<open>utils.ts\<close>

text \<open>
  JavaScript numbers are IEEE binary64 doubles, and every operator rounds its exact
  result to the nearest double, a tie going to the even significand.  A double is the
  rational it denotes; \<open>to_double\<close> rounds a rational to 53 significant bits.  The
  exponent range is not bounded here: the loop counters, their quotients and the
  percentages are far from overflow and from the subnormal numbers, and a counter or a
  length (below \<open>2^32\<close> for a JavaScript array) is a double as it stands.
\<close>

definition round_half_even :: "rat \<Rightarrow> int" where
  "round_half_even x =
     (let f = \<lfloor>x\<rfloor>; d = x - of_int f in
      if d < 1 / 2 then f else if 1 / 2 < d then f + 1 else if even f then f else f + 1)"

function ilog2 :: "int \<Rightarrow> int" where
  "ilog2 n = (if n < 2 then 0 else 1 + ilog2 (n div 2))"
  by pat_completeness auto
termination
  by (relation "measure nat") auto

definition to_double :: "rat \<Rightarrow> rat" where
  "to_double x =
     (if x = 0 then 0
      else
        (let (a, b) = quotient_of \<bar>x\<bar>;
             k = ilog2 a - ilog2 b;
             e = (if 2 powi k \<le> \<bar>x\<bar> then k else k - 1);
             ulp = 2 powi (e - 52)
         in sgn x * of_int (round_half_even (\<bar>x\<bar> / ulp)) * ulp))"

text \<open>\<open>Math.round\<close> of a double: the nearest integer, a half going up.\<close>

definition js_round :: "rat \<Rightarrow> int" where
  "js_round x = \<lfloor>x + 1 / 2\<rfloor>"

text \<open>
  The two progress expressions, \<open>Math.round((i + 1 / totalSteps) * 100)\<close> of the first
  \<open>queryDHIS2\<close> and \<open>Math.round((i / totalSteps) * 100)\<close> of the second, operator by
  operator.
\<close>

definition progress_first :: "nat \<Rightarrow> nat \<Rightarrow> int" where
  "progress_first i totalSteps =
     js_round (to_double (to_double (of_nat i + to_double (1 / of_nat totalSteps)) * 100))"

definition progress_second :: "nat \<Rightarrow> nat \<Rightarrow> int" where
  "progress_second i totalSteps =
     js_round (to_double (to_double (of_nat i / of_nat totalSteps) * 100))"

fun show_nat :: "nat \<Rightarrow> string" where
  "show_nat n =
     (if n < 10 then [''0123456789'' ! n]
      else show_nat (n div 10) @ [''0123456789'' ! (n mod 10)])"

definition step_message :: "nat \<Rightarrow> nat \<Rightarrow> string \<Rightarrow> string" where
  "step_message i totalSteps nm =
     ''Completed step '' @ show_nat i @ '' of '' @ show_nat totalSteps @ '' ('' @ nm @ '')''"

record orgUnit =
  ou_id :: string
  ou_name :: string
  ou_level :: int
  organisationUnitGroups :: "string list"

text \<open>
  What the organisation-unit lookup with descendants can answer: an object with an
  \<open>id\<close>, an object with an \<open>organisationUnits\<close> array, or neither.
\<close>

datatype tree_reply = OneUnit orgUnit | ManyUnits "orgUnit list" | NoUnits

text \<open>
  The two remote services, as the job body sees them: the answers to its lookups, and
  for each analytics query and each ALMA session whether the call throws.
\<close>

record external =
  ou_single :: "orgUnit result"
  ou_tree :: "tree_reply result"
  indicator_group :: "string list result"
  analytics_ok :: "string list \<Rightarrow> string \<Rightarrow> bool"
  alma_ok :: "string \<Rightarrow> bool"

definition send_request :: "request \<Rightarrow> world \<Rightarrow> world" where
  "send_request r w = w\<lparr>calls := calls w @ [r]\<rparr>"

definition get_analytics ::
  "external \<Rightarrow> string list \<Rightarrow> string option \<Rightarrow> string \<Rightarrow> world \<Rightarrow> unit result \<times> world" where
  "get_analytics ext dx p unit_id w =
     (if analytics_ok ext dx unit_id then Ok () else Raise HttpError,
      send_request (GetAnalytics dx p unit_id) w)"

text \<open>
  \<open>sendToAlma\<close> throws only when opening the session throws; a failed upload is caught
  inside it.
\<close>

definition sendToAlma ::
  "external \<Rightarrow> int option \<Rightarrow> string \<Rightarrow> world \<Rightarrow> unit result \<times> world" where
  "sendToAlma ext sc nm w =
     (if alma_ok ext nm then Ok () else Raise HttpError, send_request (SendToAlma sc nm) w)"

text \<open>
  A \<open>try\<close> block of consecutive \<open>db.run\<close> calls whose \<open>catch\<close> logs: the first
  throw skips the rest.
\<close>

fun try_all :: "sql list \<Rightarrow> world \<Rightarrow> world" where
  "try_all [] w = w"
| "try_all (s # ss) w =
     (case db_run s w of
        (Raise e, w') \<Rightarrow> log_line (Logged e) w'
      | (Ok _, w') \<Rightarrow> try_all ss w')"

text \<open>
  The organisation-unit lookup leaves \<open>units\<close> with an \<open>organisationUnits\<close> array, or,
  when the answer with descendants has neither an \<open>id\<close> nor that array, without one;
  the HTTP call itself may throw.  Nothing throws on a missing array until
  \<open>units.organisationUnits.length\<close> is read.
\<close>

definition unit_lookup :: "external \<Rightarrow> Schedule \<Rightarrow> orgUnit list option result" where
  "unit_lookup ext s =
     (if includeChildren s then
        (case ou_tree ext of
           Raise e \<Rightarrow> Raise e
         | Ok (OneUnit u) \<Rightarrow> Ok (Some [u])
         | Ok (ManyUnits us) \<Rightarrow> Ok (Some us)
         | Ok NoUnits \<Rightarrow> Ok None)
      else
        (case ou_single ext of
           Raise e \<Rightarrow> Raise e
         | Ok u \<Rightarrow> Ok (Some [u])))"

definition fetch_units ::
  "external \<Rightarrow> Schedule \<Rightarrow> world \<Rightarrow> orgUnit list option result \<times> world" where
  "fetch_units ext s w =
     (unit_lookup ext s, send_request (GetOrgUnits (ou s) (includeChildren s)) w)"

text \<open>Reading \<open>units.organisationUnits.length\<close>: a \<open>TypeError\<close> without the array.\<close>

definition organisationUnits_of :: "orgUnit list option \<Rightarrow> orgUnit list result" where
  "organisationUnits_of units =
     (case units of None \<Rightarrow> Raise TypeError | Some us \<Rightarrow> Ok us)"

text \<open>The units a run loops over: those of the lookup's answer, none if there is none.\<close>

definition looked_up_units :: "external \<Rightarrow> Schedule \<Rightarrow> orgUnit list" where
  "looked_up_units ext s =
     (case unit_lookup ext s of Ok (Some us) \<Rightarrow> us | _ \<Rightarrow> [])"

subsection \<open>The first \<open>queryDHIS2\<close>\<close>

text \<open>
  One turn of the loop.  The \<open>id\<close> bound in the UPDATE is the loop's own \<open>id\<close>, the
  organisation unit's.
\<close>

definition step1 :: "external \<Rightarrow> Schedule \<Rightarrow> nat \<Rightarrow> nat \<Rightarrow> orgUnit \<Rightarrow> world \<Rightarrow> world" where
  "step1 ext s totalSteps i u w =
     (let progress = progress_first i totalSteps in
      case get_analytics ext [''IN_GROUP-SWDeaw0RUyR''] (pe s) (ou_id u) w of
        (Raise e, w1) \<Rightarrow> log_line (Logged e) w1
      | (Ok _, w1) \<Rightarrow>
          (case sendToAlma ext (scorecard s) (ou_name u) w1 of
             (Raise e, w2) \<Rightarrow> log_line (Logged e) w2
           | (Ok _, w2) \<Rightarrow>
               try_all [SetProgress progress (step_message i totalSteps (ou_name u)) (ou_id u)] w2))"

fun steps1 :: "external \<Rightarrow> Schedule \<Rightarrow> nat \<Rightarrow> nat \<Rightarrow> orgUnit list \<Rightarrow> world \<Rightarrow> world" where
  "steps1 ext s totalSteps i [] w = w"
| "steps1 ext s totalSteps i (u # us) w =
     steps1 ext s totalSteps (i + 1) us (step1 ext s totalSteps i u w)"

definition queryDHIS2 ::
  "string \<Rightarrow> instant \<Rightarrow> instant \<Rightarrow> external \<Rightarrow> Schedule \<Rightarrow> world \<Rightarrow> unit result \<times> world" where
  "queryDHIS2 jobId startTime endTime ext s w =
     (if status s \<noteq> ''running'' then
        (let w1 = try_all
               [InsertExecution jobId (id_col s) startTime ''running'',
                MarkRunning jobId (id_col s),
                SetMessage ''Fetching organisation units'' (id_col s)] w
         in case fetch_units ext s w1 of
              (Raise e, w2) \<Rightarrow> (Raise e, w2)
            | (Ok units, w2) \<Rightarrow>
                (case organisationUnits_of units of
                   Raise e \<Rightarrow> (Raise e, w2)
                 | Ok us \<Rightarrow>
                     (let w3 = steps1 ext s (length us) 1 us w2 in
                      (Ok (),
                       try_all
                         [SealExecution endTime ''completed'' jobId,
                          MarkCompleted endTime (id_col s)] w3))))
      else (Ok (), w))"

subsection \<open>The second \<open>queryDHIS2\<close>\<close>

definition NOT_FOR_PROFIT :: "string list" where
  "NOT_FOR_PROFIT = [''svd8pMum32y'', ''LrvtF9Umvsh'']"

definition NOT_FOR_PROFIT_INDICATIONS :: "string list" where
  "NOT_FOR_PROFIT_INDICATIONS = [''ofZGItap633'', ''LbXgcyeBgZy'', ''HF37g2iSiZB'', ''VACcvy5d4vu'']"

text \<open>The \<open>catch\<close> of the combined query: one query and one upload per indicator.\<close>

fun per_indicator :: "external \<Rightarrow> Schedule \<Rightarrow> orgUnit \<Rightarrow> string list \<Rightarrow> world \<Rightarrow> world" where
  "per_indicator ext s u [] w = w"
| "per_indicator ext s u (indicator # rest) w =
     per_indicator ext s u rest
       (case get_analytics ext [indicator] (pe s) (ou_id u) w of
          (Raise e, w1) \<Rightarrow> log_line (Logged e) w1
        | (Ok _, w1) \<Rightarrow>
            (case sendToAlma ext (scorecard s) (ou_name u) w1 of
               (Raise e, w2) \<Rightarrow> log_line (Logged e) w2
             | (Ok _, w2) \<Rightarrow> w2))"

definition step2 ::
  "external \<Rightarrow> Schedule \<Rightarrow> string list \<Rightarrow> nat \<Rightarrow> nat \<Rightarrow> orgUnit \<Rightarrow> world \<Rightarrow> world" where
  "step2 ext s indicators totalSteps i u w =
     (let isNot4Profit =
            (length (filter (\<lambda>a. a \<in> set NOT_FOR_PROFIT) (organisationUnitGroups u)) > 0);
          availableIndicators =
            (if \<not> isNot4Profit \<and> ou_level u = 5
             then filter (\<lambda>i. i \<notin> set NOT_FOR_PROFIT_INDICATIONS) indicators
             else indicators);
          w3 =
            (case get_analytics ext availableIndicators (pe s) (ou_id u) w of
               (Raise e, w1) \<Rightarrow> per_indicator ext s u indicators w1
             | (Ok _, w1) \<Rightarrow>
                 (case sendToAlma ext (scorecard s) (ou_name u) w1 of
                    (Raise e, w2) \<Rightarrow> per_indicator ext s u indicators w2
                  | (Ok _, w2) \<Rightarrow> w2));
          progress = progress_second i totalSteps
      in try_all [SetProgress progress (step_message i totalSteps (ou_name u)) (ou_id u)] w3)"

fun steps2 ::
  "external \<Rightarrow> Schedule \<Rightarrow> string list \<Rightarrow> nat \<Rightarrow> nat \<Rightarrow> orgUnit list \<Rightarrow> world \<Rightarrow> world" where
  "steps2 ext s indicators totalSteps i [] w = w"
| "steps2 ext s indicators totalSteps i (u # us) w =
     steps2 ext s indicators totalSteps (i + 1) us (step2 ext s indicators totalSteps i u w)"

definition queryDHIS2_v2 ::
  "string \<Rightarrow> instant \<Rightarrow> instant \<Rightarrow> external \<Rightarrow> Schedule \<Rightarrow> world \<Rightarrow> unit result \<times> world" where
  "queryDHIS2_v2 jobId startTime endTime ext s w =
     (if status s \<noteq> ''running'' then
        (let w1 = try_all
               [InsertExecution jobId (id_col s) startTime ''running'',
                MarkRunning jobId (id_col s),
                SetMessage ''Fetching organisation units'' (id_col s)] w
         in case fetch_units ext s w1 of
              (Raise e, w2) \<Rightarrow> (Raise e, w2)
            | (Ok units, w2) \<Rightarrow>
                (case indicator_group ext of
                   Raise e \<Rightarrow> (Raise e, send_request GetIndicators w2)
                 | Ok indicators \<Rightarrow>
                     (case organisationUnits_of units of
                        Raise e \<Rightarrow> (Raise e, send_request GetIndicators w2)
                      | Ok us \<Rightarrow>
                          (let w3 = steps2 ext s indicators (length us) 1 us
                                      (send_request GetIndicators w2)
                           in (Ok (),
                               try_all
                                 [SealExecution endTime ''completed'' jobId,
                                  MarkCompleted endTime (id_col s)] w3)))))
      else (Ok (), w))"

section \<open>The server\<close>

text \<open>
  \<open>initializeSystem\<close>: \<open>initializeDatabase\<close> (of \<open>db.ts\<close>, which is not among the
  sources, so it is an argument here), then \<open>restoreActiveSchedules\<close>.  The call of
  \<open>cleanupRunningJobs\<close> between the two is commented out in the code.
\<close>

definition initializeSystem :: "env \<Rightarrow> (world \<Rightarrow> world) \<Rightarrow> world \<Rightarrow> unit result \<times> world" where
  "initializeSystem env initializeDatabase w =
     (case restoreActiveSchedules env
             (initializeDatabase (log_line (Info ''Initializing schedule system...'') w)) of
        (Raise e, w') \<Rightarrow> (Raise e, w')
      | (Ok _, w') \<Rightarrow> (Ok (), log_line (Info ''Schedule system initialized'') w'))"

text \<open>
  The JSON body of \<open>POST /schedules\<close>, each field at the type the \<open>Schedule\<close> interface
  gives it; \<open>None\<close> is a field the body does not have.
\<close>

record create_body =
  b_name :: "string option"
  b_cronExpression :: "string option"
  b_task :: "string option"
  b_maxRetries :: "rat option"
  b_retryDelay :: "rat option"
  b_pe :: "string option"
  b_ou :: "string option"
  b_scorecard :: "int option"
  b_includeChildren :: bool

datatype reply = ErrorReply nat string | ScheduleReply nat string Schedule

fun http_status :: "reply \<Rightarrow> nat" where
  "http_status (ErrorReply c _) = c"
| "http_status (ScheduleReply c _ _) = c"

text \<open>\<open>!x\<close> on a string field: true for a missing field and for the empty string.\<close>

fun falsy :: "string option \<Rightarrow> bool" where
  "falsy None = True"
| "falsy (Some x) = (x = [])"

definition create_schedule ::
  "env \<Rightarrow> string \<Rightarrow> instant \<Rightarrow> create_body \<Rightarrow> world \<Rightarrow> reply \<times> world" where
  "create_schedule env newId now body w =
     (let maxRetries = (case b_maxRetries body of None \<Rightarrow> 3 | Some m \<Rightarrow> m);
          retryDelay = (case b_retryDelay body of None \<Rightarrow> 60 | Some d \<Rightarrow> d)
      in
      if falsy (b_name body) \<or> falsy (b_cronExpression body) \<or> falsy (b_task body)
      then (ErrorReply 400 ''Missing required fields'', w)
      else
        (case (b_name body, b_cronExpression body, b_task body) of
           (Some nm, Some cronExp, Some tsk) \<Rightarrow>
             if \<not> isValidCronExpression env cronExp
             then (ErrorReply 400 ''Invalid cron expression'', w)
             else if maxRetries < 0 \<or> maxRetries > 10
             then (ErrorReply 400 ''maxRetries must be between 0 and 10'', w)
             else if retryDelay < 0 \<or> retryDelay > 3600
             then (ErrorReply 400 ''retryDelay must be between 0 and 3600 seconds'', w)
             else
               (case db_run
                       (InsertSchedule newId nm cronExp tsk now now maxRetries retryDelay
                          (b_pe body) (b_ou body) (b_scorecard body) (b_includeChildren body)) w of
                  (Raise e, w1) \<Rightarrow>
                    (ErrorReply 400 ''Invalid request body'', log_line (Logged e) w1)
                | (Ok _, w1) \<Rightarrow>
                    (case get_by_id newId (db w1) of
                       None \<Rightarrow> (ErrorReply 404 ''Schedule not found'', w1)
                     | Some schedule \<Rightarrow>
                         (ScheduleReply 201 ''Schedule created successfully''
                            (scheduleFromRow env schedule), w1)))
         | _ \<Rightarrow> (ErrorReply 400 ''Missing required fields'', w)))"

text \<open>\<open>POST /schedules/:id/start\<close>, with the job body the server arms every task with.\<close>

definition start_schedule :: "env \<Rightarrow> instant \<Rightarrow> string \<Rightarrow> world \<Rightarrow> reply \<times> world" where
  "start_schedule env now i w =
     (case get_by_id i (db w) of
        None \<Rightarrow> (ErrorReply 404 ''Schedule not found'', w)
      | Some scheduleRow \<Rightarrow>
          (let schedule = scheduleFromRow env scheduleRow in
           if isActive schedule then (ErrorReply 400 ''Schedule is already running'', w)
           else
             (case startScheduleJob env schedule w of
                (Raise e, w1) \<Rightarrow>
                  (ErrorReply 500 ''Failed to start schedule'', log_line (Logged e) w1)
              | (Ok _, w1) \<Rightarrow>
                  (case db_run (Activate now i) w1 of
                     (Raise e, w2) \<Rightarrow>
                       (ErrorReply 500 ''Failed to start schedule'', log_line (Logged e) w2)
                   | (Ok _, w2) \<Rightarrow>
                       (case get_by_id i (db w2) of
                          None \<Rightarrow> (ErrorReply 404 ''Schedule not found'', w2)
                        | Some updatedSchedule \<Rightarrow>
                            (ScheduleReply 200 ''Schedule started successfully''
                               (scheduleFromRow env updatedSchedule), w2))))))"

text \<open>The tasks created for a schedule id that are started: its armed timers.\<close>

definition armed_timers :: "string \<Rightarrow> world \<Rightarrow> ScheduledTask list" where
  "armed_timers i w = filter (\<lambda>t. started t \<and> id_col (snapshot t) = i) (tasks w)"

text \<open>The invariant of the data model on one row.\<close>

definition run_state_ok :: "Schedule \<Rightarrow> bool" where
  "run_state_ok r = ((currentJobId r \<noteq> None) = (status r = ''running''))"


text \<open>The store after a sequence of statements has run on it.\<close>

definition store_after :: "database \<Rightarrow> sql list \<Rightarrow> database" where
  "store_after d qs = foldl (\<lambda>d' q. run_sql q d') d qs"

text \<open>
  \<open>ran w w' qs\<close>: between the states \<open>w\<close> and \<open>w'\<close> of the process the statements
  \<open>qs\<close> ran, in this order, and nothing else changed the store.
\<close>

definition ran :: "world \<Rightarrow> world \<Rightarrow> sql list \<Rightarrow> bool" where
  "ran w w' qs = (sql_log w' = sql_log w @ qs \<and> db w' = store_after (db w) qs)"

text \<open>
  The statements of a job run whose loop goes over units with ids in \<open>U\<close>: the
  bookkeeping statements, and progress updates keyed on one of these ids.
\<close>

fun job_statement :: "string set \<Rightarrow> sql \<Rightarrow> bool" where
  "job_statement U (InsertExecution _ _ _ _) = True"
| "job_statement U (MarkRunning _ _) = True"
| "job_statement U (SetMessage _ _) = True"
| "job_statement U (SetProgress _ _ k) = (k \<in> U)"
| "job_statement U (SealExecution _ _ _) = True"
| "job_statement U (MarkCompleted _ _) = True"
| "job_statement U _ = False"

section \<open>A running example\<close>

text \<open>
  One schedule, created and not yet started, with one progress subscriber (handle 7)
  listening on it; a node-cron and a cron-parser that accept its expression; remote
  services that are down, and remote services that answer with one organisation unit.
\<close>

definition example_row :: Schedule where
  "example_row =
     \<lparr>id_col = ''s1'', name = ''daily'', cronExpression = ''0 0 * * *'', task = ''sync'',
      isActive = False, progress = 0, status = ''idle'', lastStatus = None,
      currentJobId = None, message = None, createdAt = ''t0'', updatedAt = ''t0'',
      lastRun = None, nextRun = None, maxRetries = 3, retryDelay = 60,
      pe = Some ''LAST_MONTH'', ou = Some ''ou1'', scorecard = Some 1,
      includeChildren = False\<rparr>"

definition example_env :: env where
  "example_env =
     \<lparr>cron_validate = (\<lambda>e. e = ''0 0 * * *''),
      cron_next = (\<lambda>e. if e = ''0 0 * * *'' then Ok ''t-next'' else Raise CronError)\<rparr>"

definition example_world :: world where
  "example_world =
     \<lparr>db = \<lparr>schedules = [example_row], job_executions = []\<rparr>, faults = [], sql_log = [],
      runningJobs = Map.empty, tasks = [],
      progressSubscribers = [''s1'' \<mapsto> [7]], delivered = [], console = [], calls = []\<rparr>"

definition example_unit :: orgUnit where
  "example_unit =
     \<lparr>ou_id = ''ou1'', ou_name = ''Unit one'', ou_level = 5, organisationUnitGroups = []\<rparr>"

definition services_down :: external where
  "services_down =
     \<lparr>ou_single = Raise HttpError, ou_tree = Raise HttpError,
      indicator_group = Raise HttpError, analytics_ok = (\<lambda>dx u. False),
      alma_ok = (\<lambda>n. False)\<rparr>"

definition services_up :: external where
  "services_up =
     \<lparr>ou_single = Ok example_unit, ou_tree = Ok (OneUnit example_unit),
      indicator_group = Ok [''ind1''], analytics_ok = (\<lambda>dx u. True),
      alma_ok = (\<lambda>n. True)\<rparr>"

text \<open>The example after a successful start request: task 0 is armed for \<open>s1\<close>.\<close>

definition armed_world :: world where
  "armed_world = snd (start_schedule example_env ''t1'' ''s1'' example_world)"

text \<open>
  Task 0 fires while the remote services are down: the job body throws after its
  start bookkeeping.
\<close>

definition interrupted_world :: world where
  "interrupted_world = fire (queryDHIS2 ''job-1'' ''t2'' ''t3'' services_down) 0 armed_world"

text \<open>
  The example after a start request whose write failed: task 0 is armed and the row
  still says inactive.
\<close>

definition failed_start_world :: world where
  "failed_start_world =
     snd (start_schedule example_env ''t1'' ''s1'' (example_world\<lparr>faults := [True]\<rparr>))"

text \<open>
  The process is started again on the tables the interrupted run left: no timer, no
  subscriber, an empty console.
\<close>

definition restarted_world :: world where
  "restarted_world =
     \<lparr>db = db interrupted_world, faults = [], sql_log = [], runningJobs = Map.empty,
      tasks = [], progressSubscribers = Map.empty, delivered = [], console = [],
      calls = []\<rparr>"

definition example_body :: create_body where
  "example_body =
     \<lparr>b_name = Some ''weekly'', b_cronExpression = Some ''0 0 * * *'', b_task = Some ''sync'',
      b_maxRetries = Some 3, b_retryDelay = Some 60, b_pe = Some ''LAST_MONTH'',
      b_ou = Some ''ou1'', b_scorecard = Some 1, b_includeChildren = False\<rparr>"

section \<open>Facts about the operations\<close>

lemmas example_defs =
  example_row_def example_env_def example_world_def example_unit_def services_down_def
  services_up_def

lemmas op_defs =
  start_schedule_def startScheduleJob_def scheduleFromRow_def getNextRunTime_def
  get_by_id_def db_run_def update_where_def update_execution_def log_line_def
  send_request_def fire_def timer_callback_def queryDHIS2_def fetch_units_def
  unit_lookup_def organisationUnits_of_def
  broadcastProgress_def cleanupRunningJobs_def select_by_status_def

lemma get_by_id_id: "get_by_id i d = Some row \<Longrightarrow> id_col row = i"
  by (auto simp: get_by_id_def find_Some_iff)

lemma find_map_update:
  assumes "\<And>r. id_col (f r) = id_col r"
  shows "find (\<lambda>r. id_col r = i) (map (\<lambda>r. if id_col r = i then f r else r) rows) =
         map_option f (find (\<lambda>r. id_col r = i) rows)"
  using assms by (induction rows) auto

lemma find_append_last:
  "id_col r = i \<Longrightarrow> \<exists>y. find (\<lambda>r. id_col r = i) (rows @ [r]) = Some y"
  by (induction rows) auto

lemma db_run_no_faults:
  "faults w = [] \<Longrightarrow> db_run s w = (Ok (), w\<lparr>db := run_sql s (db w), sql_log := sql_log w @ [s]\<rparr>)"
  by (simp add: db_run_def)

lemma db_run_frame:
  "tasks (snd (db_run s w)) = tasks w"
  "runningJobs (snd (db_run s w)) = runningJobs w"
  "progressSubscribers (snd (db_run s w)) = progressSubscribers w"
  "delivered (snd (db_run s w)) = delivered w"
  "calls (snd (db_run s w)) = calls w"
  by (simp_all add: db_run_def split: list.splits)

text \<open>
  A guarded block of \<open>db.run\<close> calls touches neither the timers nor the subscribers and
  runs only statements of its own list.
\<close>

lemma try_all_frame:
  "tasks (try_all ss w) = tasks w \<and> runningJobs (try_all ss w) = runningJobs w
   \<and> delivered (try_all ss w) = delivered w"
proof (induction ss arbitrary: w)
  case Nil
  then show ?case by simp
next
  case (Cons s ss)
  obtain r w' where rw: "db_run s w = (r, w')" by (cases "db_run s w")
  with db_run_frame [of s w] have fr: "tasks w' = tasks w" "runningJobs w' = runningJobs w"
    "delivered w' = delivered w"
    by simp_all
  show ?case
  proof (cases r)
    case (Ok u)
    with rw Cons.IH [of w'] fr show ?thesis by simp
  next
    case (Raise e)
    with rw fr show ?thesis by (simp add: log_line_def)
  qed
qed

lemma try_all_sql_log:
  "set (sql_log (try_all ss w)) \<subseteq> set (sql_log w) \<union> set ss"
proof (induction ss arbitrary: w)
  case Nil
  then show ?case by simp
next
  case (Cons s ss)
  obtain r w' where rw: "db_run s w = (r, w')" by (cases "db_run s w")
  then have lg: "set (sql_log w') \<subseteq> set (sql_log w) \<union> {s}"
    by (auto simp: db_run_def split: list.splits if_splits)
  show ?case
  proof (cases r)
    case (Ok u)
    with rw Cons.IH [of w'] lg show ?thesis by auto
  next
    case (Raise e)
    with rw lg show ?thesis by (auto simp: log_line_def)
  qed
qed

lemma fetch_units_world:
  "snd (fetch_units ext s w) = send_request (GetOrgUnits (ou s) (includeChildren s)) w"
  by (simp add: fetch_units_def)

lemma start_bookkeeping_no_faults:
  assumes "faults w = []"
  shows "db (try_all
                 [InsertExecution jobId i st ''running'', MarkRunning jobId i,
                  SetMessage ''Fetching organisation units'' i] w) =
         \<lparr>schedules = update_where i
              (\<lambda>r. r\<lparr>currentJobId := Some jobId, status := ''running'', progress := 0,
                     message := Some ''Fetching organisation units''\<rparr>) (schedules (db w)),
          job_executions = job_executions (db w) @
              [\<lparr>e_id = jobId, e_scheduleId = i, e_startTime = st, e_endTime = None,
                e_status = ''running''\<rparr>]\<rparr>"
  using assms by (simp add: db_run_def update_where_def o_def cong: if_cong)

text \<open>
  A job body that throws has done its start bookkeeping and nothing else to the store.
\<close>

lemma job_raise_world:
  assumes body: "body = queryDHIS2 \<or> body = queryDHIS2_v2"
      and raise: "fst (body jobId st et ext s w) = Raise e"
  shows "\<exists>w2. body jobId st et ext s w = (Raise e, w2)
          \<and> db w2 = db (try_all
              [InsertExecution jobId (id_col s) st ''running'', MarkRunning jobId (id_col s),
               SetMessage ''Fetching organisation units'' (id_col s)] w)
          \<and> tasks w2 = tasks w \<and> runningJobs w2 = runningJobs w
          \<and> sql_log w2 = sql_log (try_all
              [InsertExecution jobId (id_col s) st ''running'', MarkRunning jobId (id_col s),
               SetMessage ''Fetching organisation units'' (id_col s)] w)"
proof -
  let ?w1 = "try_all
              [InsertExecution jobId (id_col s) st ''running'', MarkRunning jobId (id_col s),
               SetMessage ''Fetching organisation units'' (id_col s)] w"
  let ?w2 = "send_request (GetOrgUnits (ou s) (includeChildren s)) ?w1"
  let ?w3 = "send_request GetIndicators ?w2"
  have f: "fetch_units ext s ?w1 = (unit_lookup ext s, ?w2)"
    by (simp add: fetch_units_def del: try_all.simps)
  have fr: "tasks ?w1 = tasks w" "runningJobs ?w1 = runningJobs w"
    using try_all_frame by blast+
  have w2: "db ?w2 = db ?w1" "tasks ?w2 = tasks w" "runningJobs ?w2 = runningJobs w"
    "sql_log ?w2 = sql_log ?w1"
    using fr by (simp_all add: send_request_def del: try_all.simps)
  have w3: "db ?w3 = db ?w1" "tasks ?w3 = tasks w" "runningJobs ?w3 = runningJobs w"
    "sql_log ?w3 = sql_log ?w1"
    using fr by (simp_all add: send_request_def del: try_all.simps)
  from body show ?thesis
  proof
    assume b: "body = queryDHIS2"
    with raise have run: "status s \<noteq> ''running''" by (auto simp: queryDHIS2_def)
    have "queryDHIS2 jobId st et ext s w = (Raise e, ?w2)"
    proof (cases "unit_lookup ext s")
      case (Raise e')
      with run f raise b show ?thesis
        by (simp add: queryDHIS2_def Let_def del: try_all.simps)
    next
      case (Ok units)
      show ?thesis
      proof (cases units)
        case None
        with Ok run f raise b show ?thesis
          by (simp add: queryDHIS2_def organisationUnits_of_def Let_def del: try_all.simps)
      next
        case (Some us)
        with Ok run f raise b show ?thesis
          by (simp add: queryDHIS2_def organisationUnits_of_def Let_def del: try_all.simps)
      qed
    qed
    with b w2 show ?thesis by (simp del: try_all.simps)
  next
    assume b: "body = queryDHIS2_v2"
    with raise have run: "status s \<noteq> ''running''" by (auto simp: queryDHIS2_v2_def)
    have "queryDHIS2_v2 jobId st et ext s w = (Raise e, ?w2)
        \<or> queryDHIS2_v2 jobId st et ext s w = (Raise e, ?w3)"
    proof (cases "unit_lookup ext s")
      case (Raise e')
      with run f raise b show ?thesis
        by (simp add: queryDHIS2_v2_def Let_def del: try_all.simps)
    next
      case (Ok units)
      show ?thesis
      proof (cases "indicator_group ext")
        case (Raise e')
        with Ok run f raise b show ?thesis
          by (simp add: queryDHIS2_v2_def Let_def del: try_all.simps)
      next
        case ig: (Ok indicators)
        show ?thesis
        proof (cases units)
          case None
          with Ok ig run f raise b show ?thesis
            by (simp add: queryDHIS2_v2_def organisationUnits_of_def Let_def del: try_all.simps)
        next
          case (Some us)
          with Ok ig run f raise b show ?thesis
            by (simp add: queryDHIS2_v2_def organisationUnits_of_def Let_def del: try_all.simps)
        qed
      qed
    qed
    with b w2 w3 show ?thesis by (auto simp del: try_all.simps)
  qed
qed

text \<open>
  With no failing write, the recovery loop marks every row that shares its id with one
  of the jobs, and calls every subscriber of each job.
\<close>

lemma cleanup_loop_no_faults:
  assumes "faults w = []"
  shows "fst (cleanup_loop now jobs w) = Ok ()
       \<and> schedules (db (snd (cleanup_loop now jobs w))) =
           map (\<lambda>r. if id_col r \<in> id_col ` set jobs
                     then r\<lparr>status := ''failed'', progress := 0, updatedAt := now,
                            lastRun := Some now\<rparr>
                     else r) (schedules (db w))
       \<and> delivered (snd (cleanup_loop now jobs w)) =
           delivered w @
             concat (map (\<lambda>job. case progressSubscribers w (id_col job) of
                                   None \<Rightarrow> []
                                 | Some subscribers \<Rightarrow>
                                     map (\<lambda>subscriber. (subscriber,
                                        ProgressUpdate (id_col job) 0 ''failed''
                                          (Some ''Task interrupted due to server restart'') now))
                                       subscribers) jobs)
       \<and> progressSubscribers (snd (cleanup_loop now jobs w)) = progressSubscribers w"
  using assms
proof (induction jobs arbitrary: w)
  case Nil
  then show ?case by simp
next
  case (Cons job jobs)
  let ?u = "ProgressUpdate (id_col job) 0 ''failed''
              (Some ''Task interrupted due to server restart'') now"
  let ?w1 = "broadcastProgress ?u
               (w\<lparr>db := run_sql (MarkInterrupted 0 now now (id_col job)) (db w),
                  sql_log := sql_log w @ [MarkInterrupted 0 now now (id_col job)]\<rparr>)"
  have step: "cleanup_loop now (job # jobs) w = cleanup_loop now jobs ?w1"
    using Cons.prems by (simp add: db_run_no_faults)
  have f1: "faults ?w1 = []"
    using Cons.prems by (simp add: broadcastProgress_def split: option.splits)
  have s1: "schedules (db ?w1) =
              map (\<lambda>r. if id_col r = id_col job
                        then r\<lparr>status := ''failed'', progress := 0, updatedAt := now,
                               lastRun := Some now\<rparr>
                        else r) (schedules (db w))"
    by (simp add: broadcastProgress_def update_where_def split: option.splits)
  have p1: "progressSubscribers ?w1 = progressSubscribers w"
    by (simp add: broadcastProgress_def split: option.splits)
  have d1: "delivered ?w1 = delivered w @
              (case progressSubscribers w (id_col job) of
                 None \<Rightarrow> []
               | Some subscribers \<Rightarrow> map (\<lambda>subscriber. (subscriber, ?u)) subscribers)"
    by (simp add: broadcastProgress_def split: option.splits)
  from Cons.IH [OF f1] show ?case
    unfolding step s1 p1 d1 by (auto simp: o_def)
qed

text \<open>
  Restoring the active schedules arms timers and logs; it writes nothing and publishes
  nothing.
\<close>

lemma restore_loop_frame:
  "db (snd (restore_loop env rows w)) = db w
   \<and> delivered (snd (restore_loop env rows w)) = delivered w
   \<and> sql_log (snd (restore_loop env rows w)) = sql_log w"
proof (induction rows arbitrary: w)
  case Nil
  then show ?case by simp
next
  case (Cons row rows)
  let ?w1 = "log_line (Restoring (name (scheduleFromRow env row)) (id_col (scheduleFromRow env row))) w"
  obtain r w2 where st: "startScheduleJob env (scheduleFromRow env row) ?w1 = (r, w2)"
    by (cases "startScheduleJob env (scheduleFromRow env row) ?w1")
  then have fr: "db w2 = db w" "delivered w2 = delivered w" "sql_log w2 = sql_log w"
    by (auto simp: startScheduleJob_def log_line_def Let_def split: if_splits)
  show ?case
  proof (cases r)
    case (Ok job)
    with st Cons.IH [of w2] fr show ?thesis by (simp add: Let_def)
  next
    case (Raise e)
    with st fr show ?thesis by (simp add: Let_def)
  qed
qed

lemma initializeSystem_frame:
  "db (snd (initializeSystem env initializeDatabase w)) =
     db (initializeDatabase (log_line (Info ''Initializing schedule system...'') w))
   \<and> delivered (snd (initializeSystem env initializeDatabase w)) =
     delivered (initializeDatabase (log_line (Info ''Initializing schedule system...'') w))
   \<and> sql_log (snd (initializeSystem env initializeDatabase w)) =
     sql_log (initializeDatabase (log_line (Info ''Initializing schedule system...'') w))"
proof -
  let ?w0 = "initializeDatabase (log_line (Info ''Initializing schedule system...'') w)"
  let ?w1 = "log_line (Info ''Restoring active schedules...'') ?w0"
  obtain r w' where rl: "restore_loop env (select_active (db ?w0)) ?w1 = (r, w')"
    by (cases "restore_loop env (select_active (db ?w0)) ?w1")
  with restore_loop_frame [of env "select_active (db ?w0)" ?w1]
  have "db w' = db ?w0" "delivered w' = delivered ?w0" "sql_log w' = sql_log ?w0"
    by (simp_all add: log_line_def)
  with rl show ?thesis
    by (cases r) (simp_all add: initializeSystem_def restoreActiveSchedules_def log_line_def)
qed

text \<open>
  The running example, evaluated.
\<close>

lemma armed_world_eq:
  "armed_world =
     \<lparr>db = \<lparr>schedules = [example_row\<lparr>isActive := True, updatedAt := ''t1''\<rparr>],
             job_executions = []\<rparr>,
      faults = [], sql_log = [Activate ''t1'' ''s1''],
      runningJobs = [''s1'' \<mapsto> 0],
      tasks = [\<lparr>snapshot = example_row, started = True\<rparr>],
      progressSubscribers = [''s1'' \<mapsto> [7]], delivered = [], console = [], calls = []\<rparr>"
  by (simp add: armed_world_def example_defs op_defs)

lemma interrupted_world_eq:
  "interrupted_world =
     \<lparr>db = \<lparr>schedules =
               [example_row\<lparr>isActive := True, updatedAt := ''t1'', status := ''running'',
                  currentJobId := Some ''job-1'',
                  message := Some ''Fetching organisation units''\<rparr>],
             job_executions =
               [\<lparr>e_id = ''job-1'', e_scheduleId = ''s1'', e_startTime = ''t2'',
                 e_endTime = None, e_status = ''running''\<rparr>]\<rparr>,
      faults = [],
      sql_log = [Activate ''t1'' ''s1'', InsertExecution ''job-1'' ''s1'' ''t2'' ''running'',
                 MarkRunning ''job-1'' ''s1'', SetMessage ''Fetching organisation units'' ''s1''],
      runningJobs = [''s1'' \<mapsto> 0],
      tasks = [\<lparr>snapshot = example_row, started = True\<rparr>],
      progressSubscribers = [''s1'' \<mapsto> [7]], delivered = [],
      console = [Executing ''s1'' ''sync'', ErrorExecuting ''s1'' HttpError],
      calls = [GetOrgUnits (Some ''ou1'') False]\<rparr>"
  unfolding interrupted_world_def armed_world_eq
  by (simp add: example_defs op_defs)

text \<open>The requests of a loop turn leave the store alone.\<close>

lemma external_call_db:
  "db (snd (get_analytics ext dx p u w)) = db w"
  "db (snd (sendToAlma ext sc nm w)) = db w"
  by (simp_all add: get_analytics_def sendToAlma_def send_request_def)

lemma per_indicator_db: "db (per_indicator ext s u inds w) = db w"
proof (induction inds arbitrary: w)
  case Nil
  then show ?case by simp
next
  case (Cons ind inds)
  obtain r1 w1 where a: "get_analytics ext [ind] (pe s) (ou_id u) w = (r1, w1)"
    by (cases "get_analytics ext [ind] (pe s) (ou_id u) w")
  obtain r2 w2 where b: "sendToAlma ext (scorecard s) (ou_name u) w1 = (r2, w2)"
    by (cases "sendToAlma ext (scorecard s) (ou_name u) w1")
  from a external_call_db(1) [of ext "[ind]" "pe s" "ou_id u" w] have "db w1 = db w" by simp
  moreover from b external_call_db(2) [of ext "scorecard s" "ou_name u" w1] have "db w2 = db w1" by simp
  ultimately show ?case
    using a b Cons.IH by (cases r1; cases r2) (simp_all add: log_line_def)
qed

text \<open>
  Which statements a run executes, and what they do to the progress column.
\<close>

lemma ran_refl: "ran w w []"
  by (simp add: ran_def store_after_def)

lemma ran_trans: "ran w w1 qs \<Longrightarrow> ran w1 w2 qs' \<Longrightarrow> ran w w2 (qs @ qs')"
  by (simp add: ran_def store_after_def)

lemma ran_same: "sql_log w' = sql_log w \<Longrightarrow> db w' = db w \<Longrightarrow> ran w w' []"
  by (simp add: ran_def store_after_def)

lemma ran_after: "ran w w1 qs \<Longrightarrow> sql_log w2 = sql_log w1 \<Longrightarrow> db w2 = db w1 \<Longrightarrow> ran w w2 qs"
  by (simp add: ran_def)

lemma db_run_ran: "\<exists>qs. ran w (snd (db_run q w)) qs \<and> set qs \<subseteq> {q}"
proof (cases "faults w")
  case Nil
  then have "ran w (snd (db_run q w)) [q]" by (simp add: db_run_def ran_def store_after_def)
  then show ?thesis by (intro exI [of _ "[q]"]) simp
next
  case (Cons f fs)
  show ?thesis
  proof (cases f)
    case True
    with Cons have "ran w (snd (db_run q w)) []" by (simp add: db_run_def ran_def store_after_def)
    then show ?thesis by (intro exI [of _ "[]"]) simp
  next
    case False
    with Cons have "ran w (snd (db_run q w)) [q]" by (simp add: db_run_def ran_def store_after_def)
    then show ?thesis by (intro exI [of _ "[q]"]) simp
  qed
qed

lemma try_all_ran: "\<exists>qs. ran w (try_all ss w) qs \<and> set qs \<subseteq> set ss"
proof (induction ss arbitrary: w)
  case Nil
  show ?case by (intro exI [of _ "[]"]) (simp add: ran_refl)
next
  case (Cons q ss)
  obtain r w' where rw: "db_run q w = (r, w')" by (cases "db_run q w")
  with db_run_ran [of w q] obtain a where a: "ran w w' a" "set a \<subseteq> {q}" by auto
  show ?case
  proof (cases r)
    case (Ok u)
    from Cons.IH [of w'] obtain b where b: "ran w' (try_all ss w') b" "set b \<subseteq> set ss" by blast
    from ran_trans [OF a(1) b(1)] rw Ok have "ran w (try_all (q # ss) w) (a @ b)" by simp
    moreover from a(2) b(2) have "set (a @ b) \<subseteq> set (q # ss)" by auto
    ultimately show ?thesis by blast
  next
    case (Raise e)
    from a(1) have "ran w (log_line (Logged e) w') a"
      by (rule ran_after) (simp_all add: log_line_def)
    with rw Raise have "ran w (try_all (q # ss) w) a" by simp
    moreover from a(2) have "set a \<subseteq> set (q # ss)" by auto
    ultimately show ?thesis by blast
  qed
qed

lemma external_call_log:
  "sql_log (snd (get_analytics ext dx p u w)) = sql_log w"
  "sql_log (snd (sendToAlma ext sc nm w)) = sql_log w"
  by (simp_all add: get_analytics_def sendToAlma_def send_request_def)

lemma try_one_progress_ran:
  assumes "sql_log w' = sql_log w" and "db w' = db w" and "k \<in> U"
  shows "\<exists>qs. ran w (try_all [SetProgress p m k] w') qs \<and> (\<forall>q \<in> set qs. job_statement U q)"
proof -
  from try_all_ran [of w' "[SetProgress p m k]"] obtain qs
    where qs: "ran w' (try_all [SetProgress p m k] w') qs" "set qs \<subseteq> {SetProgress p m k}"
    by auto
  from assms(1,2) have "ran w w' []" by (rule ran_same)
  from ran_trans [OF this qs(1)] have "ran w (try_all [SetProgress p m k] w') qs" by simp
  moreover from qs(2) assms(3) have "\<forall>q \<in> set qs. job_statement U q" by auto
  ultimately show ?thesis by blast
qed

lemma step1_ran:
  assumes "ou_id u \<in> U"
  shows "\<exists>qs. ran w (step1 ext s n i u w) qs \<and> (\<forall>q \<in> set qs. job_statement U q)"
proof -
  obtain r1 w1 where a: "get_analytics ext [''IN_GROUP-SWDeaw0RUyR''] (pe s) (ou_id u) w = (r1, w1)"
    by (cases "get_analytics ext [''IN_GROUP-SWDeaw0RUyR''] (pe s) (ou_id u) w")
  obtain r2 w2 where b: "sendToAlma ext (scorecard s) (ou_name u) w1 = (r2, w2)"
    by (cases "sendToAlma ext (scorecard s) (ou_name u) w1")
  from a external_call_log(1) [of ext "[''IN_GROUP-SWDeaw0RUyR'']" "pe s" "ou_id u" w]
    external_call_db(1) [of ext "[''IN_GROUP-SWDeaw0RUyR'']" "pe s" "ou_id u" w]
  have w1: "sql_log w1 = sql_log w" "db w1 = db w" by simp_all
  from b external_call_log(2) [of ext "scorecard s" "ou_name u" w1]
    external_call_db(2) [of ext "scorecard s" "ou_name u" w1] w1
  have w2: "sql_log w2 = sql_log w" "db w2 = db w" by simp_all
  have none: "\<exists>qs. ran w w' qs \<and> (\<forall>q \<in> set qs. job_statement U q)"
    if "sql_log w' = sql_log w" "db w' = db w" for w'
    using ran_same [OF that] by (intro exI [of _ "[]"]) simp
  show ?thesis
  proof (cases r1)
    case (Raise e)
    with a have "step1 ext s n i u w = log_line (Logged e) w1"
      by (simp add: step1_def Let_def)
    with none [of "log_line (Logged e) w1"] w1 show ?thesis by (simp add: log_line_def)
  next
    case o1: (Ok x)
    show ?thesis
    proof (cases r2)
      case (Raise e)
      with a b o1 have "step1 ext s n i u w = log_line (Logged e) w2"
        by (simp add: step1_def Let_def)
      with none [of "log_line (Logged e) w2"] w2 show ?thesis by (simp add: log_line_def)
    next
      case (Ok y)
      with a b o1 have "step1 ext s n i u w =
          try_all [SetProgress (progress_first i n) (step_message i n (ou_name u)) (ou_id u)] w2"
        by (simp add: step1_def Let_def del: try_all.simps)
      with try_one_progress_ran [OF w2 assms] show ?thesis by (simp del: try_all.simps)
    qed
  qed
qed

lemma steps1_ran:
  assumes "ou_id ` set us \<subseteq> U"
  shows "\<exists>qs. ran w (steps1 ext s n i us w) qs \<and> (\<forall>q \<in> set qs. job_statement U q)"
  using assms
proof (induction us arbitrary: i w)
  case Nil
  show ?case by (intro exI [of _ "[]"]) (simp add: ran_refl)
next
  case (Cons u us)
  then have u: "ou_id u \<in> U" and us: "ou_id ` set us \<subseteq> U" by auto
  from step1_ran [OF u, of w ext s n i] obtain a
    where a: "ran w (step1 ext s n i u w) a" "\<forall>q \<in> set a. job_statement U q" by blast
  from Cons.IH [OF us, of "step1 ext s n i u w" "i + 1"] obtain b
    where b: "ran (step1 ext s n i u w) (steps1 ext s n (i + 1) us (step1 ext s n i u w)) b"
      "\<forall>q \<in> set b. job_statement U q" by blast
  from ran_trans [OF a(1) b(1)] have "ran w (steps1 ext s n i (u # us) w) (a @ b)" by simp
  moreover from a(2) b(2) have "\<forall>q \<in> set (a @ b). job_statement U q" by auto
  ultimately show ?case by blast
qed

lemma per_indicator_log: "sql_log (per_indicator ext s u inds w) = sql_log w"
proof (induction inds arbitrary: w)
  case Nil
  then show ?case by simp
next
  case (Cons ind inds)
  obtain r1 w1 where a: "get_analytics ext [ind] (pe s) (ou_id u) w = (r1, w1)"
    by (cases "get_analytics ext [ind] (pe s) (ou_id u) w")
  obtain r2 w2 where b: "sendToAlma ext (scorecard s) (ou_name u) w1 = (r2, w2)"
    by (cases "sendToAlma ext (scorecard s) (ou_name u) w1")
  from a external_call_log(1) [of ext "[ind]" "pe s" "ou_id u" w] have "sql_log w1 = sql_log w" by simp
  moreover from b external_call_log(2) [of ext "scorecard s" "ou_name u" w1]
  have "sql_log w2 = sql_log w1" by simp
  ultimately show ?case
    using a b Cons.IH by (cases r1; cases r2) (simp_all add: log_line_def)
qed

lemma step2_ran:
  assumes "ou_id u \<in> U"
  shows "\<exists>qs. ran w (step2 ext s inds n i u w) qs \<and> (\<forall>q \<in> set qs. job_statement U q)"
proof -
  define av where "av = (if \<not> (length (filter (\<lambda>a. a \<in> set NOT_FOR_PROFIT) (organisationUnitGroups u)) > 0) \<and> ou_level u = 5
             then filter (\<lambda>i. i \<notin> set NOT_FOR_PROFIT_INDICATIONS) inds
             else inds)"
  obtain r1 w1 where a: "get_analytics ext av (pe s) (ou_id u) w = (r1, w1)"
    by (cases "get_analytics ext av (pe s) (ou_id u) w")
  obtain r2 w2 where b: "sendToAlma ext (scorecard s) (ou_name u) w1 = (r2, w2)"
    by (cases "sendToAlma ext (scorecard s) (ou_name u) w1")
  define w3 where "w3 = (case r1 of Raise e \<Rightarrow> per_indicator ext s u inds w1
                         | Ok _ \<Rightarrow> (case r2 of Raise e \<Rightarrow> per_indicator ext s u inds w2 | Ok _ \<Rightarrow> w2))"
  from a external_call_log(1) [of ext av "pe s" "ou_id u" w]
    external_call_db(1) [of ext av "pe s" "ou_id u" w]
  have d1: "sql_log w1 = sql_log w" "db w1 = db w" by simp_all
  from b external_call_log(2) [of ext "scorecard s" "ou_name u" w1]
    external_call_db(2) [of ext "scorecard s" "ou_name u" w1]
  have d2: "sql_log w2 = sql_log w1" "db w2 = db w1" by simp_all
  have l3: "sql_log w3 = sql_log w" "db w3 = db w"
    by (cases r1; cases r2; simp add: w3_def per_indicator_log per_indicator_db d1 d2)+
  have "step2 ext s inds n i u w =
          try_all [SetProgress (progress_second i n) (step_message i n (ou_name u)) (ou_id u)] w3"
    using a b
    by (cases r1; cases r2) (simp_all add: step2_def Let_def w3_def av_def del: try_all.simps)
  with try_one_progress_ran [OF l3 assms] show ?thesis by (simp del: try_all.simps)
qed

lemma steps2_ran:
  assumes "ou_id ` set us \<subseteq> U"
  shows "\<exists>qs. ran w (steps2 ext s inds n i us w) qs \<and> (\<forall>q \<in> set qs. job_statement U q)"
  using assms
proof (induction us arbitrary: i w)
  case Nil
  show ?case by (intro exI [of _ "[]"]) (simp add: ran_refl)
next
  case (Cons u us)
  then have u: "ou_id u \<in> U" and us: "ou_id ` set us \<subseteq> U" by auto
  from step2_ran [OF u, of w ext s inds n i] obtain a
    where a: "ran w (step2 ext s inds n i u w) a" "\<forall>q \<in> set a. job_statement U q" by blast
  from Cons.IH [OF us, of "step2 ext s inds n i u w" "i + 1"] obtain b
    where b: "ran (step2 ext s inds n i u w)
                (steps2 ext s inds n (i + 1) us (step2 ext s inds n i u w)) b"
      "\<forall>q \<in> set b. job_statement U q" by blast
  from ran_trans [OF a(1) b(1)] have "ran w (steps2 ext s inds n i (u # us) w) (a @ b)" by simp
  moreover from a(2) b(2) have "\<forall>q \<in> set (a @ b). job_statement U q" by auto
  ultimately show ?case by blast
qed

lemma bookkeeping_ran:
  assumes "\<forall>q \<in> set ss. job_statement U q"
  shows "\<exists>qs. ran w (try_all ss w) qs \<and> (\<forall>q \<in> set qs. job_statement U q)"
proof -
  from try_all_ran [of w ss] obtain qs where "ran w (try_all ss w) qs" "set qs \<subseteq> set ss" by blast
  with assms show ?thesis by blast
qed

lemma job_body_ran:
  assumes "body = queryDHIS2 \<or> body = queryDHIS2_v2"
  shows "\<exists>qs. ran w (snd (body jobId st et ext s w)) qs
           \<and> (\<forall>q \<in> set qs. job_statement (ou_id ` set (looked_up_units ext s)) q)"
proof (cases "status s = ''running''")
  case True
  with assms have "snd (body jobId st et ext s w) = w"
    by (auto simp: queryDHIS2_def queryDHIS2_v2_def)
  then show ?thesis by (intro exI [of _ "[]"]) (simp add: ran_refl)
next
  case False
  let ?U = "ou_id ` set (looked_up_units ext s)"
  let ?ss = "[InsertExecution jobId (id_col s) st ''running'', MarkRunning jobId (id_col s),
              SetMessage ''Fetching organisation units'' (id_col s)]"
  let ?fin = "[SealExecution et ''completed'' jobId, MarkCompleted et (id_col s)]"
  let ?w1 = "try_all ?ss w"
  let ?w2 = "send_request (GetOrgUnits (ou s) (includeChildren s)) ?w1"
  let ?w3 = "send_request GetIndicators ?w2"
  from bookkeeping_ran [of ?ss ?U w] obtain a
    where a: "ran w ?w1 a" "\<forall>q \<in> set a. job_statement ?U q" by auto
  have a2: "ran w ?w2 a"
    using a(1) by (rule ran_after) (simp_all add: send_request_def del: try_all.simps)
  have a3: "ran w ?w3 a"
    using a(1) by (rule ran_after) (simp_all add: send_request_def del: try_all.simps)
  have f: "fetch_units ext s ?w1 = (unit_lookup ext s, ?w2)"
    by (simp add: fetch_units_def del: try_all.simps)
  have early: ?thesis if "snd (body jobId st et ext s w) = ?w2 \<or> snd (body jobId st et ext s w) = ?w3"
    using that a a2 a3 by (auto simp del: try_all.simps)
  have fin: "\<exists>qs. ran w (try_all ?fin w') qs \<and> (\<forall>q \<in> set qs. job_statement ?U q)"
    if "ran w w' b" "\<forall>q \<in> set b. job_statement ?U q" for w' b
  proof -
    from bookkeeping_ran [of ?fin ?U w'] obtain c
      where c: "ran w' (try_all ?fin w') c" "\<forall>q \<in> set c. job_statement ?U q" by auto
    from ran_trans [OF that(1) c(1)] that(2) c(2) show ?thesis
      by (intro exI [of _ "b @ c"]) (auto simp del: try_all.simps)
  qed
  show ?thesis
  proof (cases "unit_lookup ext s")
    case (Raise e)
    with f False assms have "snd (body jobId st et ext s w) = ?w2"
      by (auto simp: queryDHIS2_def queryDHIS2_v2_def Let_def simp del: try_all.simps)
    then show ?thesis by (intro early) simp
  next
    case (Ok units)
    show ?thesis
    proof (cases units)
      case None
      with Ok f False assms
      have "snd (body jobId st et ext s w) = ?w2 \<or> snd (body jobId st et ext s w) = ?w3"
        by (cases "indicator_group ext")
           (auto simp: queryDHIS2_def queryDHIS2_v2_def organisationUnits_of_def Let_def
               simp del: try_all.simps)
      then show ?thesis by (rule early)
    next
      case (Some us)
      with Ok have U: "ou_id ` set us \<subseteq> ?U" by (simp add: looked_up_units_def)
      from assms show ?thesis
      proof
        assume b: "body = queryDHIS2"
        from steps1_ran [OF U, of ?w2 ext s "length us" 1] obtain c
          where c: "ran ?w2 (steps1 ext s (length us) 1 us ?w2) c"
            "\<forall>q \<in> set c. job_statement ?U q" by blast
        from ran_trans [OF a2 c(1)] a(2) c(2)
        have "\<exists>qs. ran w (try_all ?fin (steps1 ext s (length us) 1 us ?w2)) qs
                 \<and> (\<forall>q \<in> set qs. job_statement ?U q)"
          by (intro fin [of _ "a @ c"]) auto
        moreover from Ok Some f False b
        have "snd (body jobId st et ext s w) = try_all ?fin (steps1 ext s (length us) 1 us ?w2)"
          by (simp add: queryDHIS2_def organisationUnits_of_def Let_def del: try_all.simps)
        ultimately show ?thesis by (simp del: try_all.simps)
      next
        assume b: "body = queryDHIS2_v2"
        show ?thesis
        proof (cases "indicator_group ext")
          case (Raise e)
          with Ok f False b have "snd (body jobId st et ext s w) = ?w3"
            by (simp add: queryDHIS2_v2_def Let_def del: try_all.simps)
          then show ?thesis by (intro early) simp
        next
          case ig: (Ok inds)
          from steps2_ran [OF U, of ?w3 ext s inds "length us" 1] obtain c
            where c: "ran ?w3 (steps2 ext s inds (length us) 1 us ?w3) c"
              "\<forall>q \<in> set c. job_statement ?U q" by blast
          from ran_trans [OF a3 c(1)] a(2) c(2)
          have "\<exists>qs. ran w (try_all ?fin (steps2 ext s inds (length us) 1 us ?w3)) qs
                   \<and> (\<forall>q \<in> set qs. job_statement ?U q)"
            by (intro fin [of _ "a @ c"]) auto
          moreover from Ok Some ig f False b
          have "snd (body jobId st et ext s w) =
                  try_all ?fin (steps2 ext s inds (length us) 1 us ?w3)"
            by (simp add: queryDHIS2_v2_def organisationUnits_of_def Let_def del: try_all.simps)
          ultimately show ?thesis by (simp del: try_all.simps)
        qed
      qed
    qed
  qed
qed



text \<open>What restoring the active schedules arms.\<close>

lemma scheduleFromRow_keeps:
  "id_col (scheduleFromRow env r) = id_col r"
  "cronExpression (scheduleFromRow env r) = cronExpression r"
  by (simp_all add: scheduleFromRow_def)

lemma restore_loop_registry_frame:
  assumes "i \<notin> id_col ` set rows"
  shows "runningJobs (snd (restore_loop env rows w)) i = runningJobs w i"
  using assms
proof (induction rows arbitrary: w)
  case Nil
  then show ?case by simp
next
  case (Cons row rows)
  let ?w1 = "log_line (Restoring (name (scheduleFromRow env row)) (id_col (scheduleFromRow env row))) w"
  obtain r w2 where st: "startScheduleJob env (scheduleFromRow env row) ?w1 = (r, w2)"
    by (cases "startScheduleJob env (scheduleFromRow env row) ?w1")
  with Cons.prems have fr: "runningJobs w2 i = runningJobs w i"
    by (auto simp: startScheduleJob_def log_line_def Let_def scheduleFromRow_keeps split: if_splits)
  from Cons.prems have "i \<notin> id_col ` set rows" by simp
  from Cons.IH [OF this, of w2] st fr show ?case
    by (cases r) (simp_all add: Let_def)
qed

lemma restore_loop_arms:
  assumes "\<forall>r \<in> set rows. cron_validate env (cronExpression r)"
  shows "fst (restore_loop env rows w) = Ok ()
       \<and> tasks (snd (restore_loop env rows w)) =
           tasks w @ map (\<lambda>r. \<lparr>snapshot = scheduleFromRow env r, started = True\<rparr>) rows
       \<and> (\<forall>r \<in> set rows. \<exists>h.
             runningJobs (snd (restore_loop env rows w)) (id_col r) = Some h
           \<and> length (tasks w) \<le> h
           \<and> h < length (tasks (snd (restore_loop env rows w)))
           \<and> started (tasks (snd (restore_loop env rows w)) ! h)
           \<and> id_col (snapshot (tasks (snd (restore_loop env rows w)) ! h)) = id_col r)"
  using assms
proof (induction rows arbitrary: w)
  case Nil
  then show ?case by simp
next
  case (Cons row rows)
  let ?t = "\<lparr>snapshot = scheduleFromRow env row, started = True\<rparr>"
  let ?w1 = "log_line (Restoring (name (scheduleFromRow env row)) (id_col (scheduleFromRow env row))) w"
  let ?w2 = "?w1\<lparr>tasks := tasks ?w1 @ [?t],
                  runningJobs := (runningJobs ?w1)(id_col row \<mapsto> length (tasks ?w1))\<rparr>"
  let ?w' = "snd (restore_loop env rows ?w2)"
  from Cons.prems have v: "cron_validate env (cronExpression row)"
    and vs: "\<forall>r \<in> set rows. cron_validate env (cronExpression r)" by simp_all
  have st: "startScheduleJob env (scheduleFromRow env row) ?w1 = (Ok (length (tasks ?w1)), ?w2)"
    using v by (simp add: startScheduleJob_def Let_def scheduleFromRow_keeps)
  then have step: "restore_loop env (row # rows) w = restore_loop env rows ?w2"
    by (simp add: Let_def)
  have t2: "tasks ?w2 = tasks w @ [?t]" by (simp add: log_line_def)
  from Cons.IH [OF vs, of ?w2]
  have ok: "fst (restore_loop env rows ?w2) = Ok ()"
    and ts: "tasks ?w' = tasks ?w2 @ map (\<lambda>r. \<lparr>snapshot = scheduleFromRow env r, started = True\<rparr>) rows"
    and rg: "\<forall>r \<in> set rows. \<exists>h.
             runningJobs ?w' (id_col r) = Some h \<and> length (tasks ?w2) \<le> h
           \<and> h < length (tasks ?w') \<and> started (tasks ?w' ! h)
           \<and> id_col (snapshot (tasks ?w' ! h)) = id_col r"
    by blast+
  have ts': "tasks ?w' = tasks w @ map (\<lambda>r. \<lparr>snapshot = scheduleFromRow env r, started = True\<rparr>) (row # rows)"
    using ts t2 by simp
  have here: "\<exists>h. runningJobs ?w' (id_col row) = Some h \<and> length (tasks w) \<le> h
           \<and> h < length (tasks ?w') \<and> started (tasks ?w' ! h)
           \<and> id_col (snapshot (tasks ?w' ! h)) = id_col row"
  proof (cases "id_col row \<in> id_col ` set rows")
    case True
    then obtain r where r: "r \<in> set rows" "id_col r = id_col row" by auto
    with rg obtain h where "runningJobs ?w' (id_col r) = Some h" "length (tasks ?w2) \<le> h"
      "h < length (tasks ?w')" "started (tasks ?w' ! h)"
      "id_col (snapshot (tasks ?w' ! h)) = id_col r"
      by blast
    with r(2) t2 show ?thesis by (intro exI [of _ h]) simp
  next
    case False
    from restore_loop_registry_frame [OF False, of env ?w2]
    have "runningJobs ?w' (id_col row) = Some (length (tasks w))"
      by (simp add: log_line_def)
    moreover have "tasks ?w' ! length (tasks w) = ?t"
      unfolding ts' by (simp add: nth_append)
    moreover have "length (tasks w) < length (tasks ?w')"
      unfolding ts' by simp
    ultimately show ?thesis
      by (intro exI [of _ "length (tasks w)"]) (simp add: scheduleFromRow_keeps)
  qed
  have others: "\<forall>r \<in> set rows. \<exists>h.
             runningJobs ?w' (id_col r) = Some h \<and> length (tasks w) \<le> h
           \<and> h < length (tasks ?w') \<and> started (tasks ?w' ! h)
           \<and> id_col (snapshot (tasks ?w' ! h)) = id_col r"
  proof
    fix r assume "r \<in> set rows"
    with rg obtain h where h: "runningJobs ?w' (id_col r) = Some h" "length (tasks ?w2) \<le> h"
      "h < length (tasks ?w')" "started (tasks ?w' ! h)"
      "id_col (snapshot (tasks ?w' ! h)) = id_col r"
      by blast
    from h(2) t2 have "length (tasks w) \<le> h" by simp
    with h show "\<exists>h. runningJobs ?w' (id_col r) = Some h \<and> length (tasks w) \<le> h
           \<and> h < length (tasks ?w') \<and> started (tasks ?w' ! h)
           \<and> id_col (snapshot (tasks ?w' ! h)) = id_col r"
      by blast
  qed
  from ok ts' here others show ?case
    unfolding step by simp
qed

lemma restore_loop_raises:
  assumes "\<exists>r \<in> set rows. \<not> cron_validate env (cronExpression r)"
  shows "fst (restore_loop env rows w) = Raise CronError"
  using assms
proof (induction rows arbitrary: w)
  case Nil
  then show ?case by simp
next
  case (Cons row rows)
  let ?w1 = "log_line (Restoring (name (scheduleFromRow env row)) (id_col (scheduleFromRow env row))) w"
  show ?case
  proof (cases "cron_validate env (cronExpression row)")
    case False
    then show ?thesis
      by (simp add: startScheduleJob_def Let_def scheduleFromRow_keeps)
  next
    case True
    with Cons.prems have "\<exists>r \<in> set rows. \<not> cron_validate env (cronExpression r)" by simp
    from Cons.IH [OF this] True show ?thesis
      by (simp add: startScheduleJob_def Let_def scheduleFromRow_keeps)
  qed
qed

lemma initializeSystem_arms:
  "(fst (initializeSystem env initializeDatabase w) = Ok ()) =
     (\<forall>r \<in> set (select_active
                   (db (initializeDatabase (log_line (Info ''Initializing schedule system...'') w)))).
        cron_validate env (cronExpression r))"
  "(\<forall>r \<in> set (select_active
                   (db (initializeDatabase (log_line (Info ''Initializing schedule system...'') w)))).
        cron_validate env (cronExpression r)) \<Longrightarrow>
     tasks (snd (initializeSystem env initializeDatabase w)) =
       tasks (initializeDatabase (log_line (Info ''Initializing schedule system...'') w)) @
         map (\<lambda>r. \<lparr>snapshot = scheduleFromRow env r, started = True\<rparr>)
           (select_active
              (db (initializeDatabase (log_line (Info ''Initializing schedule system...'') w))))
   \<and> (\<forall>r \<in> set (select_active
                    (db (initializeDatabase (log_line (Info ''Initializing schedule system...'') w)))).
         \<exists>h. runningJobs (snd (initializeSystem env initializeDatabase w)) (id_col r) = Some h
            \<and> h < length (tasks (snd (initializeSystem env initializeDatabase w)))
            \<and> started (tasks (snd (initializeSystem env initializeDatabase w)) ! h)
            \<and> id_col (snapshot (tasks (snd (initializeSystem env initializeDatabase w)) ! h)) =
                id_col r)"
proof -
  let ?w0 = "initializeDatabase (log_line (Info ''Initializing schedule system...'') w)"
  let ?w1 = "log_line (Info ''Restoring active schedules...'') ?w0"
  let ?rows = "select_active (db ?w0)"
  let ?V = "\<forall>r \<in> set ?rows. cron_validate env (cronExpression r)"
  obtain r w' where rl: "restore_loop env ?rows ?w1 = (r, w')"
    by (cases "restore_loop env ?rows ?w1")
  have d1: "db ?w1 = db ?w0" "tasks ?w1 = tasks ?w0" by (simp_all add: log_line_def)
  have init: "initializeSystem env initializeDatabase w =
                (case r of Raise e \<Rightarrow> (Raise e, w')
                 | Ok _ \<Rightarrow> (Ok (), log_line (Info ''Schedule system initialized'') w'))"
    using rl by (cases r) (simp_all add: initializeSystem_def restoreActiveSchedules_def d1)
  show "(fst (initializeSystem env initializeDatabase w) = Ok ()) = ?V"
  proof (cases ?V)
    case True
    from restore_loop_arms [OF True, of ?w1] rl have "r = Ok ()" by simp
    with init True show ?thesis by simp
  next
    case False
    then have "\<exists>r \<in> set ?rows. \<not> cron_validate env (cronExpression r)" by blast
    from restore_loop_raises [OF this, of ?w1] rl have "r = Raise CronError" by simp
    with init False show ?thesis by simp
  qed
  assume v: ?V
  have fs: "fst (restore_loop env ?rows ?w1) = r" "snd (restore_loop env ?rows ?w1) = w'"
    using rl by simp_all
  from restore_loop_arms [OF v, of ?w1, unfolded fs]
  have r: "r = Ok ()"
    and ts: "tasks w' = tasks ?w1 @ map (\<lambda>r. \<lparr>snapshot = scheduleFromRow env r, started = True\<rparr>) ?rows"
    and rg: "\<forall>r \<in> set ?rows. \<exists>h. runningJobs w' (id_col r) = Some h \<and> length (tasks ?w1) \<le> h
           \<and> h < length (tasks w') \<and> started (tasks w' ! h)
           \<and> id_col (snapshot (tasks w' ! h)) = id_col r"
    by blast+
  from init r have fin: "snd (initializeSystem env initializeDatabase w) =
      log_line (Info ''Schedule system initialized'') w'" by simp
  have "tasks (snd (initializeSystem env initializeDatabase w)) = tasks w'"
    "runningJobs (snd (initializeSystem env initializeDatabase w)) = runningJobs w'"
    by (simp_all add: fin log_line_def)
  with ts rg d1 show "tasks (snd (initializeSystem env initializeDatabase w)) =
       tasks ?w0 @ map (\<lambda>r. \<lparr>snapshot = scheduleFromRow env r, started = True\<rparr>) ?rows
   \<and> (\<forall>r \<in> set ?rows.
         \<exists>h. runningJobs (snd (initializeSystem env initializeDatabase w)) (id_col r) = Some h
            \<and> h < length (tasks (snd (initializeSystem env initializeDatabase w)))
            \<and> started (tasks (snd (initializeSystem env initializeDatabase w)) ! h)
            \<and> id_col (snapshot (tasks (snd (initializeSystem env initializeDatabase w)) ! h)) =
                id_col r)"
    by auto
qed

lemma failed_start_world_eq:
  "failed_start_world =
     \<lparr>db = \<lparr>schedules = [example_row], job_executions = []\<rparr>, faults = [], sql_log = [],
      runningJobs = [''s1'' \<mapsto> 0],
      tasks = [\<lparr>snapshot = example_row, started = True\<rparr>],
      progressSubscribers = [''s1'' \<mapsto> [7]], delivered = [], console = [Logged DbError],
      calls = []\<rparr>"
  by (simp add: failed_start_world_def example_defs op_defs Let_def)

section \<open>The claims\<close>

subsection \<open>C1: current job id and status\<close>

text \<open>
  C1 says that after every status transition, recovery's repair included, the persisted
  \<open>currentJobId\<close> is non-null exactly when the persisted status is \<open>running\<close>.
  Evaluated on the example, whose row satisfies this before recovery:
  \<open>cleanupRunningJobs\<close> sets the status to \<open>failed\<close> and leaves \<open>currentJobId\<close> at the
  interrupted job's id, so the row no longer satisfies it.  (The job body's completion
  statement clears the column; the recovery statement does not name it.)
\<close>

theorem cleanupRunningJobs_keeps_currentJobId:
  "list_all run_state_ok (schedules (db interrupted_world))
   \<and> fst (cleanupRunningJobs ''t9'' interrupted_world) = Ok ()
   \<and> map (\<lambda>r. (status r, currentJobId r))
        (schedules (db (snd (cleanupRunningJobs ''t9'' interrupted_world)))) =
       [(''failed'', Some ''job-1'')]
   \<and> \<not> list_all run_state_ok (schedules (db (snd (cleanupRunningJobs ''t9'' interrupted_world))))"
  by (simp add: interrupted_world_eq run_state_ok_def example_defs op_defs)

subsection \<open>C2: recovery at startup\<close>

text \<open>
  The two parts of the amended C2 that speak of the store: what \<open>cleanupRunningJobs\<close>
  does when it is called, and that \<open>initializeSystem\<close> writes nothing and publishes
  nothing.
\<close>

lemma recovery_repairs_startup_writes_nothing:
  "(faults w = [] \<longrightarrow>
      fst (cleanupRunningJobs now w) = Ok ()
    \<and> list_all2 (\<lambda>r r'. id_col r' = id_col r
                   \<and> (status r = ''running'' \<longrightarrow> status r' = ''failed'' \<and> progress r' = 0))
        (schedules (db w)) (schedules (db (snd (cleanupRunningJobs now w))))
    \<and> (\<forall>r' \<in> set (schedules (db (snd (cleanupRunningJobs now w)))). status r' \<noteq> ''running'')
    \<and> (\<forall>r \<in> set (schedules (db w)). status r = ''running'' \<longrightarrow>
         (\<forall>subscribers subscriber.
            progressSubscribers w (id_col r) = Some subscribers \<and> subscriber \<in> set subscribers \<longrightarrow>
            (subscriber,
             ProgressUpdate (id_col r) 0 ''failed''
               (Some ''Task interrupted due to server restart'') now)
              \<in> set (delivered (snd (cleanupRunningJobs now w))))))
   \<and> db (snd (initializeSystem env initializeDatabase w)) =
       db (initializeDatabase (log_line (Info ''Initializing schedule system...'') w))
   \<and> delivered (snd (initializeSystem env initializeDatabase w)) =
       delivered (initializeDatabase (log_line (Info ''Initializing schedule system...'') w))
   \<and> sql_log (snd (initializeSystem env initializeDatabase w)) =
       sql_log (initializeDatabase (log_line (Info ''Initializing schedule system...'') w))"
proof (intro conjI impI)
  assume nf: "faults w = []"
  let ?jobs = "select_by_status ''running'' (db w)"
  let ?w' = "snd (cleanupRunningJobs now w)"
  note cl = cleanup_loop_no_faults [OF nf, of now ?jobs]
  have ids: "id_col r \<in> id_col ` set ?jobs" if "r \<in> set (schedules (db w))" "status r = ''running''" for r
    using that by (auto simp: select_by_status_def)
  have jobs_running: "status j = ''running'' \<and> j \<in> set (schedules (db w))" if "j \<in> set ?jobs" for j
    using that by (auto simp: select_by_status_def)
  show "fst (cleanupRunningJobs now w) = Ok ()"
    using cl by (simp add: cleanupRunningJobs_def)
  have sch: "schedules (db ?w') =
           map (\<lambda>r. if id_col r \<in> id_col ` set ?jobs
                     then r\<lparr>status := ''failed'', progress := 0, updatedAt := now,
                            lastRun := Some now\<rparr>
                     else r) (schedules (db w))"
    using cl by (simp add: cleanupRunningJobs_def)
  show "list_all2 (\<lambda>r r'. id_col r' = id_col r
                   \<and> (status r = ''running'' \<longrightarrow> status r' = ''failed'' \<and> progress r' = 0))
        (schedules (db w)) (schedules (db ?w'))"
    unfolding sch list_all2_map2 using ids by (auto intro!: list_all2_same [THEN iffD2])
  show "\<forall>r' \<in> set (schedules (db ?w')). status r' \<noteq> ''running''"
    unfolding sch using ids by auto
  show "\<forall>r \<in> set (schedules (db w)). status r = ''running'' \<longrightarrow>
         (\<forall>subscribers subscriber.
            progressSubscribers w (id_col r) = Some subscribers \<and> subscriber \<in> set subscribers \<longrightarrow>
            (subscriber,
             ProgressUpdate (id_col r) 0 ''failed''
               (Some ''Task interrupted due to server restart'') now)
              \<in> set (delivered ?w'))"
  proof (intro ballI impI allI)
    fix r subscribers subscriber
    assume r: "r \<in> set (schedules (db w))" "status r = ''running''"
      and s: "progressSubscribers w (id_col r) = Some subscribers \<and> subscriber \<in> set subscribers"
    from r have "r \<in> set ?jobs" by (simp add: select_by_status_def)
    with s cl show "(subscriber,
             ProgressUpdate (id_col r) 0 ''failed''
               (Some ''Task interrupted due to server restart'') now)
              \<in> set (delivered ?w')"
      by (force simp: cleanupRunningJobs_def)
  qed
qed (simp_all add: initializeSystem_frame)


text \<open>
  C2, as amended: \<open>cleanupRunningJobs\<close>, when it is called and no write fails, returns
  normally, turns every row whose status is \<open>running\<close> into status \<open>failed\<close> with
  progress 0 (no row is left \<open>running\<close>), and calls every subscriber registered for such
  a row with the interruption update.  \<open>initializeSystem\<close> does not call it: whatever
  \<open>initializeDatabase\<close> leaves in the tables, in the statement log and with the
  subscribers is what startup leaves there.  What startup does is arm the timers: it
  ends normally exactly when node-cron accepts the expression of every active row, and
  then it has created one started task per active row, in the order of the table, and
  the registry holds for every active row a started task of that row's id.
\<close>

theorem cleanupRunningJobs_repairs_startup_skips_it:
  "(faults w = [] \<longrightarrow>
      fst (cleanupRunningJobs now w) = Ok ()
    \<and> list_all2 (\<lambda>r r'. id_col r' = id_col r
                   \<and> (status r = ''running'' \<longrightarrow> status r' = ''failed'' \<and> progress r' = 0))
        (schedules (db w)) (schedules (db (snd (cleanupRunningJobs now w))))
    \<and> (\<forall>r' \<in> set (schedules (db (snd (cleanupRunningJobs now w)))). status r' \<noteq> ''running'')
    \<and> (\<forall>r \<in> set (schedules (db w)). status r = ''running'' \<longrightarrow>
         (\<forall>subscribers subscriber.
            progressSubscribers w (id_col r) = Some subscribers \<and> subscriber \<in> set subscribers \<longrightarrow>
            (subscriber,
             ProgressUpdate (id_col r) 0 ''failed''
               (Some ''Task interrupted due to server restart'') now)
              \<in> set (delivered (snd (cleanupRunningJobs now w))))))
   \<and> db (snd (initializeSystem env initializeDatabase w)) =
       db (initializeDatabase (log_line (Info ''Initializing schedule system...'') w))
   \<and> delivered (snd (initializeSystem env initializeDatabase w)) =
       delivered (initializeDatabase (log_line (Info ''Initializing schedule system...'') w))
   \<and> sql_log (snd (initializeSystem env initializeDatabase w)) =
       sql_log (initializeDatabase (log_line (Info ''Initializing schedule system...'') w))
   \<and> (fst (initializeSystem env initializeDatabase w) = Ok ()) =
       (\<forall>r \<in> set (select_active
                     (db (initializeDatabase (log_line (Info ''Initializing schedule system...'') w)))).
          cron_validate env (cronExpression r))
   \<and> ((\<forall>r \<in> set (select_active
                      (db (initializeDatabase (log_line (Info ''Initializing schedule system...'') w)))).
          cron_validate env (cronExpression r)) \<longrightarrow>
        tasks (snd (initializeSystem env initializeDatabase w)) =
          tasks (initializeDatabase (log_line (Info ''Initializing schedule system...'') w)) @
            map (\<lambda>r. \<lparr>snapshot = scheduleFromRow env r, started = True\<rparr>)
              (select_active
                 (db (initializeDatabase (log_line (Info ''Initializing schedule system...'') w))))
      \<and> (\<forall>r \<in> set (select_active
                       (db (initializeDatabase (log_line (Info ''Initializing schedule system...'') w)))).
            \<exists>h. runningJobs (snd (initializeSystem env initializeDatabase w)) (id_col r) = Some h
               \<and> h < length (tasks (snd (initializeSystem env initializeDatabase w)))
               \<and> started (tasks (snd (initializeSystem env initializeDatabase w)) ! h)
               \<and> id_col (snapshot (tasks (snd (initializeSystem env initializeDatabase w)) ! h)) =
                   id_col r))"
  using recovery_repairs_startup_writes_nothing
          [where w = w and now = now and env = env and initializeDatabase = initializeDatabase]
    initializeSystem_arms [where w = w and env = env and initializeDatabase = initializeDatabase]
  by (intro conjI) blast+

text \<open>
  The amended C2 on the example: recovery on the interrupted schedule, with subscriber 7,
  and a start of the process on the tables that run left.
\<close>

theorem cleanupRunningJobs_repairs_startup_skips_it_witness:
  "faults interrupted_world = []
   \<and> map status (schedules (db interrupted_world)) = [''running'']
   \<and> progressSubscribers interrupted_world ''s1'' = Some [7]
   \<and> fst (cleanupRunningJobs ''t9'' interrupted_world) = Ok ()
   \<and> map status (schedules (db (snd (cleanupRunningJobs ''t9'' interrupted_world)))) = [''failed'']
   \<and> map progress (schedules (db (snd (cleanupRunningJobs ''t9'' interrupted_world)))) = [0]
   \<and> (7, ProgressUpdate ''s1'' 0 ''failed'' (Some ''Task interrupted due to server restart'') ''t9'')
        \<in> set (delivered (snd (cleanupRunningJobs ''t9'' interrupted_world)))
   \<and> map isActive (schedules (db restarted_world)) = [True]
   \<and> list_all (\<lambda>r. cron_validate example_env (cronExpression r))
        (select_active (db restarted_world))
   \<and> fst (initializeSystem example_env (\<lambda>w. w) restarted_world) = Ok ()
   \<and> db (snd (initializeSystem example_env (\<lambda>w. w) restarted_world)) = db restarted_world
   \<and> map (\<lambda>t. (id_col (snapshot t), started t))
        (tasks (snd (initializeSystem example_env (\<lambda>w. w) restarted_world))) = [(''s1'', True)]
   \<and> runningJobs (snd (initializeSystem example_env (\<lambda>w. w) restarted_world)) ''s1'' = Some 0"
proof -
  have f: "faults interrupted_world = []" by (simp add: interrupted_world_eq)
  have s: "schedules (db interrupted_world) =
             [example_row\<lparr>isActive := True, updatedAt := ''t1'', status := ''running'',
                  currentJobId := Some ''job-1'',
                  message := Some ''Fetching organisation units''\<rparr>]"
    by (simp add: interrupted_world_eq)
  have p: "progressSubscribers interrupted_world ''s1'' = Some [7]"
    by (simp add: interrupted_world_eq)
  from cleanupRunningJobs_repairs_startup_skips_it
         [of interrupted_world "''t9''" example_env "\<lambda>w. w"] f
  have recovery: "fst (cleanupRunningJobs ''t9'' interrupted_world) = Ok ()
   \<and> map status (schedules (db (snd (cleanupRunningJobs ''t9'' interrupted_world)))) = [''failed'']
   \<and> map progress (schedules (db (snd (cleanupRunningJobs ''t9'' interrupted_world)))) = [0]
   \<and> (7, ProgressUpdate ''s1'' 0 ''failed'' (Some ''Task interrupted due to server restart'') ''t9'')
        \<in> set (delivered (snd (cleanupRunningJobs ''t9'' interrupted_world)))"
    unfolding s using p by (auto simp: example_row_def list_all2_Cons1)
  let ?w0 = "log_line (Info ''Initializing schedule system...'') restarted_world"
  let ?w' = "snd (initializeSystem example_env (\<lambda>w. w) restarted_world)"
  have act: "select_active (db ?w0) =
               [example_row\<lparr>isActive := True, updatedAt := ''t1'', status := ''running'',
                  currentJobId := Some ''job-1'',
                  message := Some ''Fetching organisation units''\<rparr>]"
    by (simp add: restarted_world_def s log_line_def select_active_def example_row_def)
  have act': "select_active (db restarted_world) = select_active (db ?w0)"
    by (simp add: log_line_def)
  have valid: "\<forall>r \<in> set (select_active (db ?w0)). cron_validate example_env (cronExpression r)"
    unfolding act by (simp add: example_env_def example_row_def)
  have t0: "tasks ?w0 = []" "db ?w0 = db restarted_world"
    by (simp_all add: restarted_world_def log_line_def)
  from cleanupRunningJobs_repairs_startup_skips_it
         [of restarted_world "''t9''" example_env "\<lambda>w. w"] valid
  have ok: "fst (initializeSystem example_env (\<lambda>w. w) restarted_world) = Ok ()"
    and d: "db ?w' = db ?w0"
    and ts: "tasks ?w' = tasks ?w0 @
               map (\<lambda>r. \<lparr>snapshot = scheduleFromRow example_env r, started = True\<rparr>)
                 (select_active (db ?w0))"
    and rg: "\<forall>r \<in> set (select_active (db ?w0)).
               \<exists>h. runningJobs ?w' (id_col r) = Some h \<and> h < length (tasks ?w')
                  \<and> started (tasks ?w' ! h) \<and> id_col (snapshot (tasks ?w' ! h)) = id_col r"
    by blast+
  from ts have ts': "map (\<lambda>t. (id_col (snapshot t), started t)) (tasks ?w') = [(''s1'', True)]"
    unfolding act t0(1) by (simp add: scheduleFromRow_def example_row_def)
  from ts have len: "length (tasks ?w') = 1" unfolding act t0(1) by simp
  from rg have "\<exists>h. runningJobs ?w' ''s1'' = Some h \<and> h < length (tasks ?w')"
    unfolding act by (auto simp: example_row_def)
  with len have reg: "runningJobs ?w' ''s1'' = Some 0" by auto
  have rows: "map isActive (schedules (db restarted_world)) = [True]"
    by (simp add: restarted_world_def s)
  have val: "list_all (\<lambda>r. cron_validate example_env (cronExpression r))
        (select_active (db restarted_world))"
    using valid unfolding act' by (simp add: list_all_iff)
  have st: "map status (schedules (db interrupted_world)) = [''running'']"
    unfolding s by simp
  from d t0 have d': "db ?w' = db restarted_world" by simp
  from recovery have r1: "fst (cleanupRunningJobs ''t9'' interrupted_world) = Ok ()"
    and r2: "map status (schedules (db (snd (cleanupRunningJobs ''t9'' interrupted_world)))) = [''failed'']"
    and r3: "map progress (schedules (db (snd (cleanupRunningJobs ''t9'' interrupted_world)))) = [0]"
    and r4: "(7, ProgressUpdate ''s1'' 0 ''failed'' (Some ''Task interrupted due to server restart'') ''t9'')
        \<in> set (delivered (snd (cleanupRunningJobs ''t9'' interrupted_world)))"
    by blast+
  show ?thesis
    by (intro conjI, rule f, rule st, rule p, rule r1, rule r2, rule r3, rule r4, rule rows,
        rule val, rule ok, rule d', rule ts', rule reg)
qed

text \<open>
  C2 as stated fails: the process is started on the tables of the interrupted example,
  with \<open>initializeDatabase\<close> finding its tables in place; after \<open>initializeSystem\<close> the
  schedule is still \<open>running\<close>, no statement has run and nothing has been published.
\<close>

theorem startup_leaves_running_schedule:
  "map status (schedules (db restarted_world)) = [''running'']
   \<and> fst (initializeSystem example_env (\<lambda>w. w) restarted_world) = Ok ()
   \<and> map status (schedules (db (snd (initializeSystem example_env (\<lambda>w. w) restarted_world)))) =
       [''running'']
   \<and> sql_log (snd (initializeSystem example_env (\<lambda>w. w) restarted_world)) = []
   \<and> delivered (snd (initializeSystem example_env (\<lambda>w. w) restarted_world)) = []"
  by (simp add: restarted_world_def interrupted_world_eq initializeSystem_def
      restoreActiveSchedules_def select_active_def example_defs op_defs)

subsection \<open>C3: a job body that throws\<close>

text \<open>
  C3, as amended: when either job body throws during a fire, the callback returns
  normally with the timers and the registry as they were and the error as the last
  console line; the only statements that ran are those of the start bookkeeping, so
  nothing marks the schedule \<open>failed\<close> or seals the execution.  With no failing write
  the schedule's rows are left \<open>running\<close> with the job's id and the execution record
  is left \<open>running\<close> without an end time.
\<close>

theorem timer_callback_only_logs_job_error:
  assumes "body = queryDHIS2 \<or> body = queryDHIS2_v2"
      and "fst (body jobId st et ext s (log_line (Executing (id_col s) (task s)) w)) = Raise e"
  shows "tasks (timer_callback (body jobId st et ext) s w) = tasks w
       \<and> runningJobs (timer_callback (body jobId st et ext) s w) = runningJobs w
       \<and> last (console (timer_callback (body jobId st et ext) s w)) =
           ErrorExecuting (id_col s) e
       \<and> set (sql_log (timer_callback (body jobId st et ext) s w)) \<subseteq>
           set (sql_log w) \<union>
             {InsertExecution jobId (id_col s) st ''running'', MarkRunning jobId (id_col s),
              SetMessage ''Fetching organisation units'' (id_col s)}
       \<and> (faults w = [] \<longrightarrow>
            schedules (db (timer_callback (body jobId st et ext) s w)) =
              update_where (id_col s)
                (\<lambda>r. r\<lparr>currentJobId := Some jobId, status := ''running'', progress := 0,
                       message := Some ''Fetching organisation units''\<rparr>) (schedules (db w))
          \<and> job_executions (db (timer_callback (body jobId st et ext) s w)) =
              job_executions (db w) @
                [\<lparr>e_id = jobId, e_scheduleId = id_col s, e_startTime = st, e_endTime = None,
                  e_status = ''running''\<rparr>])"
proof -
  let ?w0 = "log_line (Executing (id_col s) (task s)) w"
  let ?ss = "[InsertExecution jobId (id_col s) st ''running'', MarkRunning jobId (id_col s),
              SetMessage ''Fetching organisation units'' (id_col s)]"
  let ?w' = "timer_callback (body jobId st et ext) s w"
  from job_raise_world [OF assms] obtain w2
    where run: "body jobId st et ext s ?w0 = (Raise e, w2)"
      and w2: "db w2 = db (try_all ?ss ?w0)" "tasks w2 = tasks ?w0"
        "runningJobs w2 = runningJobs ?w0" "sql_log w2 = sql_log (try_all ?ss ?w0)"
    by blast
  have cb: "?w' = log_line (ErrorExecuting (id_col s) e) w2"
    using run by (simp add: timer_callback_def)
  have t: "tasks ?w' = tasks w" "runningJobs ?w' = runningJobs w"
    by (simp_all add: cb w2 log_line_def)
  have c: "last (console ?w') = ErrorExecuting (id_col s) e"
    by (simp add: cb log_line_def)
  have "set (sql_log (try_all ?ss ?w0)) \<subseteq> set (sql_log ?w0) \<union> set ?ss"
    by (rule try_all_sql_log)
  then have l: "set (sql_log ?w') \<subseteq> set (sql_log w) \<union> set ?ss"
    by (simp add: cb w2 log_line_def del: try_all.simps)
  have d: "db ?w' = db (try_all ?ss ?w0)" by (simp add: cb w2 log_line_def del: try_all.simps)
  have d2: "faults w = [] \<Longrightarrow> db (try_all ?ss ?w0) =
         \<lparr>schedules = update_where (id_col s)
              (\<lambda>r. r\<lparr>currentJobId := Some jobId, status := ''running'', progress := 0,
                     message := Some ''Fetching organisation units''\<rparr>) (schedules (db w)),
          job_executions = job_executions (db w) @
              [\<lparr>e_id = jobId, e_scheduleId = id_col s, e_startTime = st, e_endTime = None,
                e_status = ''running''\<rparr>]\<rparr>"
    using start_bookkeeping_no_faults [of ?w0 jobId "id_col s" st]
    by (simp add: log_line_def del: try_all.simps)
  from t c l d d2 show ?thesis by (simp del: try_all.simps)
qed

text \<open>
  The amended C3 on the example: task 0 fires while the remote services are down.
\<close>

theorem timer_callback_only_logs_job_error_witness:
  "fst (queryDHIS2 ''job-1'' ''t2'' ''t3'' services_down example_row
          (log_line (Executing (id_col example_row) (task example_row)) armed_world)) =
     Raise HttpError
   \<and> faults armed_world = []
   \<and> tasks (timer_callback (queryDHIS2 ''job-1'' ''t2'' ''t3'' services_down) example_row armed_world) =
       tasks armed_world
   \<and> runningJobs (timer_callback (queryDHIS2 ''job-1'' ''t2'' ''t3'' services_down) example_row armed_world) =
       runningJobs armed_world
   \<and> last (console (timer_callback (queryDHIS2 ''job-1'' ''t2'' ''t3'' services_down) example_row armed_world)) =
       ErrorExecuting ''s1'' HttpError
   \<and> map status (schedules (db (timer_callback (queryDHIS2 ''job-1'' ''t2'' ''t3'' services_down)
        example_row armed_world))) = [''running'']
   \<and> map e_status (job_executions (db (timer_callback (queryDHIS2 ''job-1'' ''t2'' ''t3'' services_down)
        example_row armed_world))) = [''running'']"
proof -
  have a: "queryDHIS2 = queryDHIS2 \<or> queryDHIS2 = queryDHIS2_v2" by simp
  have b: "fst (queryDHIS2 ''job-1'' ''t2'' ''t3'' services_down example_row
          (log_line (Executing (id_col example_row) (task example_row)) armed_world)) =
     Raise HttpError"
    by (simp add: queryDHIS2_def fetch_units_def unit_lookup_def example_row_def services_down_def
        Let_def
        del: try_all.simps)
  have c: "faults armed_world = []" by (simp add: armed_world_eq)
  have i: "id_col example_row = ''s1''" by (simp add: example_row_def)
  have s: "schedules (db armed_world) = [example_row\<lparr>isActive := True, updatedAt := ''t1''\<rparr>]"
    "job_executions (db armed_world) = []"
    by (simp_all add: armed_world_eq)
  from timer_callback_only_logs_job_error [OF a b] c
  have "tasks (timer_callback (queryDHIS2 ''job-1'' ''t2'' ''t3'' services_down) example_row armed_world) =
       tasks armed_world
   \<and> runningJobs (timer_callback (queryDHIS2 ''job-1'' ''t2'' ''t3'' services_down) example_row armed_world) =
       runningJobs armed_world
   \<and> last (console (timer_callback (queryDHIS2 ''job-1'' ''t2'' ''t3'' services_down) example_row armed_world)) =
       ErrorExecuting ''s1'' HttpError
   \<and> schedules (db (timer_callback (queryDHIS2 ''job-1'' ''t2'' ''t3'' services_down) example_row armed_world)) =
              update_where ''s1''
                (\<lambda>r. r\<lparr>currentJobId := Some ''job-1'', status := ''running'', progress := 0,
                       message := Some ''Fetching organisation units''\<rparr>) (schedules (db armed_world))
   \<and> job_executions (db (timer_callback (queryDHIS2 ''job-1'' ''t2'' ''t3'' services_down) example_row armed_world)) =
              job_executions (db armed_world) @
                [\<lparr>e_id = ''job-1'', e_scheduleId = ''s1'', e_startTime = ''t2'', e_endTime = None,
                  e_status = ''running''\<rparr>]"
    unfolding i by blast
  with b c show ?thesis
    unfolding s by (simp add: update_where_def example_row_def)
qed

text \<open>
  C3 as stated fails: after the fire of the example in which the job body threw, the
  schedule's status is \<open>running\<close>, not \<open>failed\<close>, its message is that of the start
  bookkeeping, and the execution record is unsealed.
\<close>

theorem failed_fire_leaves_schedule_running:
  "console interrupted_world = [Executing ''s1'' ''sync'', ErrorExecuting ''s1'' HttpError]
   \<and> map status (schedules (db interrupted_world)) = [''running'']
   \<and> map message (schedules (db interrupted_world)) = [Some ''Fetching organisation units'']
   \<and> map (\<lambda>x. (e_status x, e_endTime x)) (job_executions (db interrupted_world)) =
       [(''running'', None)]"
  by (simp add: interrupted_world_eq example_row_def)

subsection \<open>C4: arming an id that has a timer\<close>

text \<open>
  C4, as amended: \<open>startScheduleJob\<close>, called for an id that has a timer in the
  registry and with an expression node-cron accepts, returns a new started task,
  different from the registered one, and files it under the id; the other entries, the
  tasks created before and the tables are as they were.  The rejection of a repeated
  start is the request handler's, from the persisted \<open>isActive\<close>.
\<close>

theorem startScheduleJob_replaces_entry:
  assumes "runningJobs w (id_col schedule) = Some old"
      and "old < length (tasks w)"
      and "cron_validate env (cronExpression schedule)"
  shows "(\<exists>job w'. startScheduleJob env schedule w = (Ok job, w')
            \<and> job \<noteq> old
            \<and> runningJobs w' (id_col schedule) = Some job
            \<and> (\<forall>j. j \<noteq> id_col schedule \<longrightarrow> runningJobs w' j = runningJobs w j)
            \<and> tasks w' = tasks w @ [\<lparr>snapshot = schedule, started = True\<rparr>]
            \<and> db w' = db w)
       \<and> (\<forall>now row. get_by_id (id_col schedule) (db w) = Some row \<and> isActive row \<longrightarrow>
             start_schedule env now (id_col schedule) w =
               (ErrorReply 400 ''Schedule is already running'', w))"
  using assms
  by (auto simp: startScheduleJob_def start_schedule_def scheduleFromRow_def Let_def)

text \<open>
  The amended C4 on the example after its start request.
\<close>

theorem startScheduleJob_replaces_entry_witness:
  "runningJobs armed_world ''s1'' = Some 0
   \<and> startScheduleJob example_env example_row armed_world =
       (Ok 1, armed_world\<lparr>tasks := tasks armed_world @ [\<lparr>snapshot = example_row, started = True\<rparr>],
                runningJobs := (runningJobs armed_world)(''s1'' \<mapsto> 1)\<rparr>)
   \<and> start_schedule example_env ''t2'' ''s1'' armed_world =
       (ErrorReply 400 ''Schedule is already running'', armed_world)"
proof -
  have a: "runningJobs armed_world (id_col example_row) = Some 0"
    by (simp add: armed_world_eq example_row_def)
  have b: "0 < length (tasks armed_world)" by (simp add: armed_world_eq)
  have c: "cron_validate example_env (cronExpression example_row)"
    by (simp add: example_env_def example_row_def)
  have d: "get_by_id (id_col example_row) (db armed_world) =
             Some (example_row\<lparr>isActive := True, updatedAt := ''t1''\<rparr>)"
    by (simp add: armed_world_eq get_by_id_def example_row_def)
  have e: "id_col example_row = ''s1''" by (simp add: example_row_def)
  from startScheduleJob_replaces_entry [OF a b c] d e
  have "start_schedule example_env ''t2'' ''s1'' armed_world =
       (ErrorReply 400 ''Schedule is already running'', armed_world)"
    by simp
  moreover have "startScheduleJob example_env example_row armed_world =
       (Ok 1, armed_world\<lparr>tasks := tasks armed_world @ [\<lparr>snapshot = example_row, started = True\<rparr>],
                runningJobs := (runningJobs armed_world)(''s1'' \<mapsto> 1)\<rparr>)"
    by (simp add: startScheduleJob_def armed_world_eq example_env_def example_row_def)
  ultimately show ?thesis using a e by simp
qed

text \<open>
  C4 as stated fails: on the example with task 0 registered for \<open>s1\<close>,
  \<open>startScheduleJob\<close> returns task 1, the registry entry is replaced, and two started
  tasks exist for \<open>s1\<close>.
\<close>

theorem startScheduleJob_no_AlreadyRunning:
  "runningJobs armed_world ''s1'' = Some 0
   \<and> fst (startScheduleJob example_env example_row armed_world) = Ok 1
   \<and> runningJobs (snd (startScheduleJob example_env example_row armed_world)) ''s1'' = Some 1
   \<and> length (armed_timers ''s1'' (snd (startScheduleJob example_env example_row armed_world))) = 2"
  by (simp add: startScheduleJob_def armed_world_eq example_env_def example_row_def
      armed_timers_def)

subsection \<open>C5: the guard of the job body\<close>

text \<open>
  C5 says that the job body, invoked while the persisted status of its schedule is
  \<open>running\<close>, refuses to start a second run.  Evaluated on the interrupted example: the
  persisted status is \<open>running\<close>, the object task 0 closed over when it was armed
  still says \<open>idle\<close>, and the next fire of task 0 inserts a second execution record and
  sends its requests.  The guard tests the object the body is handed; the timer's
  callback hands it the object of arming time, where the manual runner reads the row
  first.
\<close>

theorem stale_snapshot_starts_second_run:
  "map status (schedules (db interrupted_world)) = [''running'']
   \<and> status (snapshot (tasks interrupted_world ! 0)) = ''idle''
   \<and> map e_id (job_executions (db interrupted_world)) = [''job-1'']
   \<and> map e_id (job_executions (db (fire (queryDHIS2 ''job-2'' ''t4'' ''t5'' services_up) 0
        interrupted_world))) = [''job-1'', ''job-2'']
   \<and> calls (fire (queryDHIS2 ''job-2'' ''t4'' ''t5'' services_up) 0 interrupted_world) =
       calls interrupted_world @
         [GetOrgUnits (Some ''ou1'') False,
          GetAnalytics [''IN_GROUP-SWDeaw0RUyR''] (Some ''LAST_MONTH'') ''ou1'',
          SendToAlma (Some 1) ''Unit one'']"
  by (simp add: interrupted_world_eq example_defs op_defs step1_def get_analytics_def
      sendToAlma_def step_message_def)

subsection \<open>C7: two start requests\<close>

text \<open>
  C7, as amended: when the first of two start requests for a schedule succeeds, the
  second is rejected with 400 \<open>Schedule is already running\<close> and changes nothing; the
  registry holds the task the first request armed, and the schedule has one armed timer
  more than before the first request: exactly one, if it had none.
\<close>

theorem second_start_rejected:
  assumes "start_schedule env now1 i w = (ScheduleReply 200 m sch, w1)"
  shows "start_schedule env now2 i w1 = (ErrorReply 400 ''Schedule is already running'', w1)
       \<and> runningJobs w1 i = Some (length (tasks w))
       \<and> length (armed_timers i w1) = length (armed_timers i w) + 1
       \<and> (armed_timers i w = [] \<longrightarrow> length (armed_timers i w1) = 1)"
proof -
  from assms obtain row where row: "get_by_id i (db w) = Some row"
    by (auto simp: start_schedule_def split: option.splits)
  have idr: "id_col row = i" using row by (rule get_by_id_id)
  from assms row have inactive: "\<not> isActive row" and valid: "cron_validate env (cronExpression row)"
    by (auto simp: start_schedule_def startScheduleJob_def scheduleFromRow_def Let_def
        split: if_splits)
  define w0 where "w0 = w\<lparr>tasks := tasks w @ [\<lparr>snapshot = scheduleFromRow env row, started = True\<rparr>],
            runningJobs := (runningJobs w)(i \<mapsto> length (tasks w))\<rparr>"
  have arm: "startScheduleJob env (scheduleFromRow env row) w = (Ok (length (tasks w)), w0)"
    using valid idr by (simp add: startScheduleJob_def scheduleFromRow_def w0_def Let_def)
  from assms row inactive arm obtain u where run: "db_run (Activate now1 i) w0 = (Ok u, w1)"
    by (auto simp: start_schedule_def scheduleFromRow_def Let_def
        split: prod.splits result.splits option.splits)
  from run have w1: "db w1 = run_sql (Activate now1 i) (db w0)" "tasks w1 = tasks w0"
    "runningJobs w1 = runningJobs w0"
    by (auto simp: db_run_def split: list.splits if_splits)
  have "get_by_id i (db w1) = Some (row\<lparr>isActive := True, updatedAt := now1, status := ''idle'', progress := 0\<rparr>)"
    using row by (simp add: w1 w0_def get_by_id_def update_where_def find_map_update)
  then have second: "start_schedule env now2 i w1 = (ErrorReply 400 ''Schedule is already running'', w1)"
    by (simp add: start_schedule_def scheduleFromRow_def)
  have reg: "runningJobs w1 i = Some (length (tasks w))" by (simp add: w1 w0_def)
  have armed: "length (armed_timers i w1) = length (armed_timers i w) + 1"
    by (simp add: armed_timers_def w1 w0_def scheduleFromRow_def idr)
  from second reg armed show ?thesis by simp
qed

text \<open>The amended C7 on the example, which has no timer before the first request.\<close>

theorem second_start_rejected_witness:
  "start_schedule example_env ''t1'' ''s1'' example_world =
     (ScheduleReply 200 ''Schedule started successfully''
        (example_row\<lparr>isActive := True, updatedAt := ''t1'', nextRun := Some ''t-next''\<rparr>), armed_world)
   \<and> start_schedule example_env ''t2'' ''s1'' armed_world =
       (ErrorReply 400 ''Schedule is already running'', armed_world)
   \<and> runningJobs armed_world ''s1'' = Some 0
   \<and> length (armed_timers ''s1'' armed_world) = 1"
proof -
  have first: "start_schedule example_env ''t1'' ''s1'' example_world =
     (ScheduleReply 200 ''Schedule started successfully''
        (example_row\<lparr>isActive := True, updatedAt := ''t1'', nextRun := Some ''t-next''\<rparr>), armed_world)"
    unfolding armed_world_eq by (simp add: example_defs op_defs)
  have "length (armed_timers ''s1'' example_world) = 0"
    by (simp add: armed_timers_def example_world_def)
  with first second_start_rejected [OF first, of "''t2''"] show ?thesis
    by (simp add: example_world_def)
qed

text \<open>
  C7 as stated fails: the write of the first start request throws, so the request is
  answered 500 with task 0 armed and the row still inactive; the second start request,
  with no stop in between, is answered 200, not rejected, and leaves two armed timers
  for \<open>s1\<close>, the registry holding the second.
\<close>

theorem second_start_after_failed_write:
  "start_schedule example_env ''t1'' ''s1'' (example_world\<lparr>faults := [True]\<rparr>) =
     (ErrorReply 500 ''Failed to start schedule'', failed_start_world)
   \<and> fst (start_schedule example_env ''t2'' ''s1'' failed_start_world) =
       ScheduleReply 200 ''Schedule started successfully''
         (example_row\<lparr>isActive := True, updatedAt := ''t2'', nextRun := Some ''t-next''\<rparr>)
   \<and> length (armed_timers ''s1'' (snd (start_schedule example_env ''t2'' ''s1'' failed_start_world))) = 2
   \<and> runningJobs (snd (start_schedule example_env ''t2'' ''s1'' failed_start_world)) ''s1'' = Some 1"
  by (simp add: failed_start_world_eq armed_timers_def example_defs op_defs Let_def)

subsection \<open>C8: validation on creation\<close>

text \<open>
  C8: creation answers 400 and changes nothing when name, expression or task is missing
  or empty, or \<open>maxRetries\<close> is outside 0..10, or \<open>retryDelay\<close> is outside 0..3600;
  so it does for \<open>maxRetries = 11\<close>; and with the three fields present, an expression
  node-cron accepts and no failing write, \<open>maxRetries = 10\<close> with \<open>retryDelay = 3600\<close>
  is answered 201 and the row is appended as given.
\<close>

theorem create_schedule_validation:
  "((falsy (b_name body) \<or> falsy (b_cronExpression body) \<or> falsy (b_task body)
      \<or> (\<exists>m. b_maxRetries body = Some m \<and> (m < 0 \<or> 10 < m))
      \<or> (\<exists>d. b_retryDelay body = Some d \<and> (d < 0 \<or> 3600 < d)))
     \<longrightarrow> (\<exists>msg. create_schedule env newId now body w = (ErrorReply 400 msg, w)))
   \<and> (\<exists>msg. create_schedule env newId now (body\<lparr>b_maxRetries := Some 11\<rparr>) w =
          (ErrorReply 400 msg, w))
   \<and> (b_name body = Some nm \<and> nm \<noteq> [] \<and> b_cronExpression body = Some cronExp \<and> cronExp \<noteq> []
        \<and> b_task body = Some tsk \<and> tsk \<noteq> [] \<and> cron_validate env cronExp \<and> faults w = []
      \<longrightarrow> (\<exists>sch w'. create_schedule env newId now
                  (body\<lparr>b_maxRetries := Some 10, b_retryDelay := Some 3600\<rparr>) w =
                  (ScheduleReply 201 ''Schedule created successfully'' sch, w')
               \<and> schedules (db w') = schedules (db w) @
                   [\<lparr>id_col = newId, name = nm, cronExpression = cronExp, task = tsk,
                     isActive = False, progress = 0, status = ''idle'', lastStatus = None,
                     currentJobId = None, message = None, createdAt = now, updatedAt = now,
                     lastRun = None, nextRun = None, maxRetries = 10, retryDelay = 3600,
                     pe = b_pe body, ou = b_ou body, scorecard = b_scorecard body,
                     includeChildren = b_includeChildren body\<rparr>]))"
proof (intro conjI impI)
  assume "falsy (b_name body) \<or> falsy (b_cronExpression body) \<or> falsy (b_task body)
      \<or> (\<exists>m. b_maxRetries body = Some m \<and> (m < 0 \<or> 10 < m))
      \<or> (\<exists>d. b_retryDelay body = Some d \<and> (d < 0 \<or> 3600 < d))"
  then show "\<exists>msg. create_schedule env newId now body w = (ErrorReply 400 msg, w)"
    by (auto simp: create_schedule_def Let_def split: option.splits)
next
  show "\<exists>msg. create_schedule env newId now (body\<lparr>b_maxRetries := Some 11\<rparr>) w =
          (ErrorReply 400 msg, w)"
    by (auto simp: create_schedule_def Let_def split: option.splits)
next
  assume a: "b_name body = Some nm \<and> nm \<noteq> [] \<and> b_cronExpression body = Some cronExp \<and> cronExp \<noteq> []
        \<and> b_task body = Some tsk \<and> tsk \<noteq> [] \<and> cron_validate env cronExp \<and> faults w = []"
  define newrow where "newrow =
     \<lparr>id_col = newId, name = nm, cronExpression = cronExp, task = tsk,
      isActive = False, progress = 0, status = ''idle'', lastStatus = None,
      currentJobId = None, message = None, createdAt = now, updatedAt = now,
      lastRun = None, nextRun = None, maxRetries = 10, retryDelay = 3600,
      pe = b_pe body, ou = b_ou body, scorecard = b_scorecard body,
      includeChildren = b_includeChildren body\<rparr>"
  have "id_col newrow = newId" by (simp add: newrow_def)
  then obtain y where y: "find (\<lambda>r. id_col r = newId) (schedules (db w) @ [newrow]) = Some y"
    using find_append_last by blast
  from a y show "\<exists>sch w'. create_schedule env newId now
                  (body\<lparr>b_maxRetries := Some 10, b_retryDelay := Some 3600\<rparr>) w =
                  (ScheduleReply 201 ''Schedule created successfully'' sch, w')
               \<and> schedules (db w') = schedules (db w) @
                   [\<lparr>id_col = newId, name = nm, cronExpression = cronExp, task = tsk,
                     isActive = False, progress = 0, status = ''idle'', lastStatus = None,
                     currentJobId = None, message = None, createdAt = now, updatedAt = now,
                     lastRun = None, nextRun = None, maxRetries = 10, retryDelay = 3600,
                     pe = b_pe body, ou = b_ou body, scorecard = b_scorecard body,
                     includeChildren = b_includeChildren body\<rparr>]"
    by (simp add: create_schedule_def isValidCronExpression_def db_run_def get_by_id_def
        Let_def newrow_def)
qed

text \<open>
  C8 on the example: a delay of 3601, 11 retries, and the accepted boundary.
\<close>

theorem create_schedule_validation_witness:
  "(\<exists>msg. create_schedule example_env ''s2'' ''t5'' (example_body\<lparr>b_retryDelay := Some 3601\<rparr>)
            example_world = (ErrorReply 400 msg, example_world))
   \<and> (\<exists>msg. create_schedule example_env ''s2'' ''t5'' (example_body\<lparr>b_maxRetries := Some 11\<rparr>)
            example_world = (ErrorReply 400 msg, example_world))
   \<and> (\<exists>sch w'. create_schedule example_env ''s2'' ''t5''
                   (example_body\<lparr>b_maxRetries := Some 10, b_retryDelay := Some 3600\<rparr>)
                   example_world =
                   (ScheduleReply 201 ''Schedule created successfully'' sch, w')
                \<and> map id_col (schedules (db w')) = [''s1'', ''s2'']
                \<and> map maxRetries (schedules (db w')) = [3, 10]
                \<and> map retryDelay (schedules (db w')) = [60, 3600])"
proof -
  have bad: "falsy (b_name (example_body\<lparr>b_retryDelay := Some 3601\<rparr>))
      \<or> falsy (b_cronExpression (example_body\<lparr>b_retryDelay := Some 3601\<rparr>))
      \<or> falsy (b_task (example_body\<lparr>b_retryDelay := Some 3601\<rparr>))
      \<or> (\<exists>m. b_maxRetries (example_body\<lparr>b_retryDelay := Some 3601\<rparr>) = Some m \<and> (m < 0 \<or> 10 < m))
      \<or> (\<exists>d. b_retryDelay (example_body\<lparr>b_retryDelay := Some 3601\<rparr>) = Some d \<and> (d < 0 \<or> 3600 < d))"
    by simp
  have good: "b_name example_body = Some ''weekly'' \<and> ''weekly'' \<noteq> []
      \<and> b_cronExpression example_body = Some ''0 0 * * *'' \<and> ''0 0 * * *'' \<noteq> []
      \<and> b_task example_body = Some ''sync'' \<and> ''sync'' \<noteq> []
      \<and> cron_validate example_env ''0 0 * * *'' \<and> faults example_world = []"
    by (simp add: example_body_def example_env_def example_world_def)
  have sch: "schedules (db example_world) = [example_row]" by (simp add: example_world_def)
  from create_schedule_validation
         [of "example_body\<lparr>b_retryDelay := Some 3601\<rparr>" example_env "''s2''" "''t5''" example_world]
       bad
  have one: "\<exists>msg. create_schedule example_env ''s2'' ''t5'' (example_body\<lparr>b_retryDelay := Some 3601\<rparr>)
            example_world = (ErrorReply 400 msg, example_world)"
    by blast
  from create_schedule_validation
         [of example_body example_env "''s2''" "''t5''" example_world "''weekly''" "''0 0 * * *''" "''sync''"]
  have two: "\<exists>msg. create_schedule example_env ''s2'' ''t5'' (example_body\<lparr>b_maxRetries := Some 11\<rparr>)
            example_world = (ErrorReply 400 msg, example_world)"
    by blast
  from create_schedule_validation
         [of example_body example_env "''s2''" "''t5''" example_world "''weekly''" "''0 0 * * *''" "''sync''"]
       good
  obtain sch' w' where three: "create_schedule example_env ''s2'' ''t5''
                   (example_body\<lparr>b_maxRetries := Some 10, b_retryDelay := Some 3600\<rparr>)
                   example_world =
                   (ScheduleReply 201 ''Schedule created successfully'' sch', w')"
     and rows: "schedules (db w') = schedules (db example_world) @
                   [\<lparr>id_col = ''s2'', name = ''weekly'', cronExpression = ''0 0 * * *'', task = ''sync'',
                     isActive = False, progress = 0, status = ''idle'', lastStatus = None,
                     currentJobId = None, message = None, createdAt = ''t5'', updatedAt = ''t5'',
                     lastRun = None, nextRun = None, maxRetries = 10, retryDelay = 3600,
                     pe = b_pe example_body, ou = b_ou example_body, scorecard = b_scorecard example_body,
                     includeChildren = b_includeChildren example_body\<rparr>]"
    by blast
  have shape: "map id_col (schedules (db w')) = [''s1'', ''s2'']
                \<and> map maxRetries (schedules (db w')) = [3, 10]
                \<and> map retryDelay (schedules (db w')) = [60, 3600]"
    unfolding rows sch by (simp add: example_row_def)
  have third: "\<exists>sch w'. create_schedule example_env ''s2'' ''t5''
                   (example_body\<lparr>b_maxRetries := Some 10, b_retryDelay := Some 3600\<rparr>)
                   example_world =
                   (ScheduleReply 201 ''Schedule created successfully'' sch, w')
                \<and> map id_col (schedules (db w')) = [''s1'', ''s2'']
                \<and> map maxRetries (schedules (db w')) = [3, 10]
                \<and> map retryDelay (schedules (db w')) = [60, 3600]"
    by (rule exI [of _ sch'], rule exI [of _ w'], rule conjI, rule three, rule shape)
  show ?thesis
    by (intro conjI, rule one, rule two, rule third)
qed

subsection \<open>C9: progress stays a percentage\<close>



subsection \<open>C10: a start request whose write fails\<close>

text \<open>
  C10: for an inactive schedule with an expression node-cron accepts, when the write
  that sets \<open>isActive\<close> throws, the start request answers 500, the new task is in the
  registry and among the tasks, started, and the tables are untouched: the row is still
  the inactive one.
\<close>

theorem start_schedule_not_rolled_back:
  assumes "get_by_id i (db w) = Some row"
      and "\<not> isActive row"
      and "cron_validate env (cronExpression row)"
      and "faults w = True # fs"
  shows "\<exists>w'. start_schedule env now i w = (ErrorReply 500 ''Failed to start schedule'', w')
          \<and> runningJobs w' i = Some (length (tasks w))
          \<and> tasks w' = tasks w @ [\<lparr>snapshot = scheduleFromRow env row, started = True\<rparr>]
          \<and> db w' = db w
          \<and> get_by_id i (db w') = Some row
          \<and> sql_log w' = sql_log w"
  using assms get_by_id_id [OF assms(1)]
  by (simp add: start_schedule_def startScheduleJob_def scheduleFromRow_def db_run_def
      log_line_def Let_def)

text \<open>
  C10 on the example, with the first write failing.
\<close>

theorem start_schedule_not_rolled_back_witness:
  "get_by_id ''s1'' (db example_world) = Some example_row
   \<and> \<not> isActive example_row
   \<and> (\<exists>w'. start_schedule example_env ''t1'' ''s1'' (example_world\<lparr>faults := [True]\<rparr>) =
              (ErrorReply 500 ''Failed to start schedule'', w')
          \<and> runningJobs w' ''s1'' = Some 0
          \<and> tasks w' = [\<lparr>snapshot = example_row, started = True\<rparr>]
          \<and> map isActive (schedules (db w')) = [False])"
proof -
  have a: "get_by_id ''s1'' (db (example_world\<lparr>faults := [True]\<rparr>)) = Some example_row"
    by (simp add: example_world_def get_by_id_def example_row_def)
  have b: "\<not> isActive example_row" by (simp add: example_row_def)
  have c: "cron_validate example_env (cronExpression example_row)"
    by (simp add: example_env_def example_row_def)
  have d: "faults (example_world\<lparr>faults := [True]\<rparr>) = True # []" by simp
  from start_schedule_not_rolled_back [OF a b c d, of "''t1''"] a b show ?thesis
    by (auto simp: example_world_def example_row_def scheduleFromRow_def)
qed

section \<open>Further properties of the job bodies\<close>

text \<open>
  A run of either job body keeps the invariant of the data model: if every row has
  \<open>currentJobId\<close> non-null exactly when its status is \<open>running\<close> before the run, every
  row has after it, whichever writes fail and whether the run ends normally or throws.
\<close>

theorem job_body_keeps_run_state:
  assumes "body = queryDHIS2 \<or> body = queryDHIS2_v2"
      and "list_all run_state_ok (schedules (db w))"
  shows "list_all run_state_ok (schedules (db (snd (body jobId st et ext s w))))"
proof -
  let ?U = "ou_id ` set (looked_up_units ext s)"
  have one: "list_all run_state_ok (schedules (run_sql q d))"
    if "job_statement ?U q" "list_all run_state_ok (schedules d)" for q d
    using that by (cases q) (auto simp: list_all_iff update_where_def run_state_ok_def)
  have many: "list_all run_state_ok (schedules (store_after d qs))"
    if "\<forall>q \<in> set qs. job_statement ?U q" "list_all run_state_ok (schedules d)" for qs d
    using that
  proof (induction qs arbitrary: d)
    case Nil
    then show ?case by (simp add: store_after_def)
  next
    case (Cons q qs)
    from Cons.prems have "list_all run_state_ok (schedules (run_sql q d))"
      by (intro one) simp_all
    with Cons.IH [of "run_sql q d"] Cons.prems(1)
    have "list_all run_state_ok (schedules (store_after (run_sql q d) qs))" by simp
    then show ?case by (simp add: store_after_def)
  qed
  from job_body_ran [OF assms(1), of w jobId st et ext s] obtain qs
    where qs: "ran w (snd (body jobId st et ext s w)) qs" "\<forall>q \<in> set qs. job_statement ?U q"
    by blast
  from qs(1) have "db (snd (body jobId st et ext s w)) = store_after (db w) qs"
    by (simp add: ran_def)
  with many [OF qs(2) assms(2)] show ?thesis by simp
qed

text \<open>On the example: a complete run of the first body, a throwing run of the second.\<close>

theorem job_body_keeps_run_state_witness:
  "list_all run_state_ok (schedules (db armed_world))
   \<and> list_all run_state_ok
        (schedules (db (snd (queryDHIS2 ''job-1'' ''t2'' ''t3'' services_up example_row armed_world))))
   \<and> list_all run_state_ok
        (schedules (db (snd (queryDHIS2_v2 ''job-1'' ''t2'' ''t3'' services_down example_row armed_world))))"
proof -
  have a: "list_all run_state_ok (schedules (db armed_world))"
    by (simp add: armed_world_eq run_state_ok_def example_row_def)
  have b: "queryDHIS2 = queryDHIS2 \<or> queryDHIS2 = queryDHIS2_v2"
    and c: "queryDHIS2_v2 = queryDHIS2 \<or> queryDHIS2_v2 = queryDHIS2_v2" by simp_all
  from a job_body_keeps_run_state [OF b a] job_body_keeps_run_state [OF c a]
  show ?thesis by blast
qed

text \<open>
  Both job bodies do nothing at all (no statement, no request, no log line) when the
  \<open>status\<close> field of the schedule object they are handed is \<open>running\<close>.
\<close>

lemma queryDHIS2_skips_running_argument:
  assumes "status s = ''running''"
  shows "queryDHIS2 jobId startTime endTime ext s w = (Ok (), w)
       \<and> queryDHIS2_v2 jobId startTime endTime ext s w = (Ok (), w)"
  using assms by (simp add: queryDHIS2_def queryDHIS2_v2_def)

text \<open>On the example: the job body handed the row as the store has it.\<close>

lemma queryDHIS2_skips_running_argument_example:
  "status (hd (schedules (db interrupted_world))) = ''running''
   \<and> queryDHIS2 ''job-2'' ''t4'' ''t5'' services_up (hd (schedules (db interrupted_world)))
        interrupted_world = (Ok (), interrupted_world)
   \<and> queryDHIS2_v2 ''job-2'' ''t4'' ''t5'' services_up (hd (schedules (db interrupted_world)))
        interrupted_world = (Ok (), interrupted_world)"
proof -
  have "status (hd (schedules (db interrupted_world))) = ''running''"
    by (simp add: interrupted_world_eq)
  from this queryDHIS2_skips_running_argument [OF this] show ?thesis by simp
qed

text \<open>
  The progress expressions on some counters: the first body's is above 100 from its
  first turn on, and both round as doubles do.
\<close>

lemma progress_examples:
  "progress_first 1 1 = 200"
  "progress_first 1 40 = 102"
  "progress_second 1 1 = 100"
  "progress_second 23 40 = 57"
  "progress_second 1 40 = 3"
  by (code_simp+)

text \<open>
  \<open>getNextRunTime\<close> answers none exactly when cron-parser throws, and otherwise the
  instant cron-parser gives.
\<close>

lemma getNextRunTime_none_iff:
  "getNextRunTime env cronExp = None \<longleftrightarrow> (\<exists>e. cron_next env cronExp = Raise e)"
  by (cases "cron_next env cronExp") (simp_all add: getNextRunTime_def)

lemma getNextRunTime_some_iff:
  "getNextRunTime env cronExp = Some t \<longleftrightarrow> cron_next env cronExp = Ok t"
  by (cases "cron_next env cronExp") (simp_all add: getNextRunTime_def)

end
